theory Spec2Isabelle
  imports Complex_Main
begin

section \<open>The coverage safeguard engine of plugin-newsreporter\<close>

text \<open>
  A shallow embedding of \<^verbatim>\<open>src/services/news-reporter-service.ts\<close> (class
  \<^verbatim>\<open>NewsReporterService\<close>) and of the coverage part of
  \<^verbatim>\<open>src/providers/story-prompt-provider.ts\<close>.

  \<^item> Timestamps, counters and durations are JavaScript numbers holding integers; they
    are \<open>int\<close> here. Every method reads \<^verbatim>\<open>Date.now()\<close> in one synchronous stretch,
    so one argument \<open>now\<close> stands for the reads of one call.
  \<^item> \<^verbatim>\<open>CoverageState\<close> values are JavaScript objects: the cache holds references, and
    \<^verbatim>\<open>state.strikes++\<close> on an object taken from the cache changes the cached object.
    The embedding keeps an explicit object store (\<open>heap\<close>) and the cache maps a room
    id to a reference.
  \<^item> The elizaOS runtime is an external collaborator. Its memory table
    \<^verbatim>\<open>reporter_coverage_state\<close> is a list of rows; whether the memory calls of one
    \<^verbatim>\<open>saveCoverageState\<close> throw is read from \<open>persistFaults\<close>, and whether a logger
    call throws from \<open>logThrows\<close>.
  \<^item> An exception that leaves a method is \<open>Inl\<close>, carrying the world at the moment it
    was thrown; a normal return is \<open>Inr\<close>.
\<close>

subsection \<open>Data model\<close>

type_synonym UUID = string
type_synonym ref = nat

text \<open>\<^verbatim>\<open>interface OutputRoomConfig\<close>; fields are prefixed where \<^verbatim>\<open>CoverageState\<close> has
  a field of the same name.\<close>

record OutputRoomConfig =
  channelId :: string
  cfg_roomId :: "UUID option"
  name :: string
  cfg_platform :: string
  cfg_cadenceMs :: "int option"
  sourceFilter :: "string list option"
  archetype :: "string option"

text \<open>\<^verbatim>\<open>interface CoverageState\<close>. The v2 fields (\<^verbatim>\<open>roomTopics\<close>,
  \<^verbatim>\<open>roomTopicsInferredAt\<close>, \<^verbatim>\<open>lastIdleAt\<close>) are never written or read by the service
  and are left out.\<close>

record CoverageState =
  roomId :: UUID
  roomName :: string
  platform :: string
  lastMentionAt :: int
  mentionCount24h :: int
  cadenceMs :: int
  strikes :: int
  mutedUntil :: "int option"

text \<open>The settings bag \<^verbatim>\<open>cfg\<close> handed to the constructor and the
  \<^verbatim>\<open>reporterConfig\<close> it builds.\<close>

record settings =
  REPORTER_COVERAGE_CHECK_MS :: "int option"
  REPORTER_DEFAULT_CADENCE_MS :: "int option"
  REPORTER_BREAKING_OVERRIDE :: "bool option"
  REPORTER_MIN_IDLE_BEFORE_NUDGE_MS :: "int option"
  REPORTER_DAILY_MENTION_CAP :: "int option"
  REPORTER_STRIKE_MUTE_HOURS :: "int option"
  REPORTER_STRIKE_DECAY_HOURS :: "int option"
  REPORTER_BRIEFING_BASE_PRICE :: "int option"
  REPORTER_DEEPDIVE_BASE_PRICE :: "int option"
  REPORTER_SUBSCRIPTION_MONTHLY_PRICE :: "int option"

record reporter_config =
  coverageCheckMs :: int
  defaultCadenceMs :: int
  breakingOverride :: bool
  minIdleBeforeNudgeMs :: int
  dailyMentionCap :: int
  strikeMuteHours :: int
  strikeDecayHours :: int
  briefingBasePrice :: int
  deepdiveBasePrice :: int
  subscriptionMonthlyPrice :: int

text \<open>JavaScript \<^verbatim>\<open>x || d\<close> on an optional number: \<^verbatim>\<open>undefined\<close> and \<^verbatim>\<open>0\<close> are falsy.\<close>

definition or_default :: "int option \<Rightarrow> int \<Rightarrow> int" where
  "or_default v d = (case v of None \<Rightarrow> d | Some x \<Rightarrow> if x = 0 then d else x)"

text \<open>The constructor (lines 72-87). \<^verbatim>\<open>c.REPORTER_BREAKING_OVERRIDE !== false\<close> is true
  unless the setting is exactly \<^verbatim>\<open>false\<close>.\<close>

definition mk_reporterConfig :: "settings \<Rightarrow> reporter_config" where
  "mk_reporterConfig c =
     \<lparr> coverageCheckMs = or_default (REPORTER_COVERAGE_CHECK_MS c) 1800000,
       defaultCadenceMs = or_default (REPORTER_DEFAULT_CADENCE_MS c) 7200000,
       breakingOverride = (REPORTER_BREAKING_OVERRIDE c \<noteq> Some False),
       minIdleBeforeNudgeMs = or_default (REPORTER_MIN_IDLE_BEFORE_NUDGE_MS c) 1800000,
       dailyMentionCap = or_default (REPORTER_DAILY_MENTION_CAP c) 15,
       strikeMuteHours = or_default (REPORTER_STRIKE_MUTE_HOURS c) 24,
       strikeDecayHours = or_default (REPORTER_STRIKE_DECAY_HOURS c) 48,
       briefingBasePrice = or_default (REPORTER_BRIEFING_BASE_PRICE c) 50,
       deepdiveBasePrice = or_default (REPORTER_DEEPDIVE_BASE_PRICE c) 200,
       subscriptionMonthlyPrice = or_default (REPORTER_SUBSCRIPTION_MONTHLY_PRICE c) 500 \<rparr>"

definition no_settings :: settings where
  "no_settings =
     \<lparr> REPORTER_COVERAGE_CHECK_MS = None, REPORTER_DEFAULT_CADENCE_MS = None,
       REPORTER_BREAKING_OVERRIDE = None, REPORTER_MIN_IDLE_BEFORE_NUDGE_MS = None,
       REPORTER_DAILY_MENTION_CAP = None, REPORTER_STRIKE_MUTE_HOURS = None,
       REPORTER_STRIKE_DECAY_HOURS = None, REPORTER_BRIEFING_BASE_PRICE = None,
       REPORTER_DEEPDIVE_BASE_PRICE = None, REPORTER_SUBSCRIPTION_MONTHLY_PRICE = None \<rparr>"

subsection \<open>The runtime: log, memory table, faults\<close>

text \<open>The log records written by the modelled methods, by message:
  \<^verbatim>\<open>'Error saving coverage state'\<close>, \<^verbatim>\<open>'Error loading coverage state'\<close>,
  \<^verbatim>\<open>'Loaded coverage states'\<close> (count), \<^verbatim>\<open>'Room auto-muted due to strikes'\<close> (roomName,
  strikes), \<^verbatim>\<open>'Coverage gap detected'\<close> (roomName, gap), \<^verbatim>\<open>'Error in coverage pump'\<close>.\<close>

datatype log_entry =
    ErrorSavingCoverageState
  | ErrorLoadingCoverageState
  | LoadedCoverageStates nat
  | RoomAutoMuted string int
  | CoverageGapDetected string int
  | ErrorInCoveragePump

datatype error = LoggerThrew log_entry

text \<open>A row of the memory table: whether the row carries an id (\<^verbatim>\<open>existing.id\<close>) and
  its metadata, a copy of the state made by the spread at line 214.\<close>

record memory =
  mem_has_id :: bool
  mem_roomId :: UUID
  mem_metadata :: CoverageState

record world =
  reporterConfig :: reporter_config
  coverageStateCache :: "UUID \<rightharpoonup> ref"
  outputRooms :: "(UUID \<times> OutputRoomConfig) list"
  heap :: "ref \<Rightarrow> CoverageState"
  nextRef :: ref
  memories :: "memory list"
  persistFaults :: "bool list"
  logThrows :: "log_entry \<Rightarrow> bool"
  logged :: "log_entry list"

type_synonym outcome = "(error \<times> world) + world"

text \<open>The world a call leaves behind, whether it returned or threw.\<close>

fun world_of :: "outcome \<Rightarrow> world" where
  "world_of (Inl (e, w)) = w"
| "world_of (Inr w) = w"

text \<open>\<^verbatim>\<open>this.runtime.logger.<level>(fields, message)\<close>.\<close>

definition logger :: "log_entry \<Rightarrow> world \<Rightarrow> outcome" where
  "logger e w =
     (if logThrows w e then Inl (LoggerThrew e, w)
      else Inr (w\<lparr>logged := logged w @ [e]\<rparr>))"

text \<open>Sequencing of two steps: an exception of the first skips the second.\<close>

definition and_then :: "outcome \<Rightarrow> (world \<Rightarrow> outcome) \<Rightarrow> outcome" where
  "and_then r f = (case r of Inl e \<Rightarrow> Inl e | Inr w \<Rightarrow> f w)"

text \<open>An object literal evaluates to a new object.\<close>

definition alloc :: "CoverageState \<Rightarrow> world \<Rightarrow> ref \<times> world" where
  "alloc st w = (nextRef w, w\<lparr>heap := (heap w)(nextRef w := st), nextRef := Suc (nextRef w)\<rparr>)"

text \<open>An assignment to a field of the object behind a reference.\<close>

definition modify :: "ref \<Rightarrow> (CoverageState \<Rightarrow> CoverageState) \<Rightarrow> world \<Rightarrow> world" where
  "modify a f w = w\<lparr>heap := (heap w)(a := f (heap w a))\<rparr>"

subsection \<open>Output rooms and coverage state\<close>

text \<open>\<^verbatim>\<open>outputRooms\<close> is a \<^verbatim>\<open>Map\<close>, iterated in insertion order: an association list.\<close>

definition isOutputRoom :: "world \<Rightarrow> UUID \<Rightarrow> bool" where
  "isOutputRoom w rid = (map_of (outputRooms w) rid \<noteq> None)"

definition getOutputRoomConfig :: "world \<Rightarrow> UUID \<Rightarrow> OutputRoomConfig option" where
  "getOutputRoomConfig w rid = map_of (outputRooms w) rid"

text \<open>\<^verbatim>\<open>getCoverageState\<close> returns the cached object itself (a reference) or null.\<close>

definition getCoverageState :: "world \<Rightarrow> UUID \<Rightarrow> ref option" where
  "getCoverageState w rid = coverageStateCache w rid"

text \<open>What a reader of \<^verbatim>\<open>getCoverageState\<close> sees: the fields of the cached object.\<close>

definition visibleState :: "world \<Rightarrow> UUID \<Rightarrow> CoverageState option" where
  "visibleState w rid = map_option (heap w) (getCoverageState w rid)"

text \<open>The memory calls of \<^verbatim>\<open>saveCoverageState\<close> when none of them throws:
  \<^verbatim>\<open>getMemories\<close> with \<^verbatim>\<open>count: 1\<close> yields the first row of the room; a row with an id is
  updated, a row without one is left alone, and with no row a new one is created.\<close>

fun upsert :: "CoverageState \<Rightarrow> memory list \<Rightarrow> memory list" where
  "upsert st [] = [\<lparr>mem_has_id = True, mem_roomId = roomId st, mem_metadata = st\<rparr>]"
| "upsert st (m # ms) =
     (if mem_roomId m = roomId st
      then (if mem_has_id m then m\<lparr>mem_metadata := st\<rparr> # ms else m # ms)
      else m # upsert st ms)"

text \<open>\<^verbatim>\<open>saveCoverageState(state)\<close>, lines 204-241. The cache is set inside the
  \<^verbatim>\<open>try\<close>, after the memory calls; the \<^verbatim>\<open>catch\<close> logs. The head of
  \<open>persistFaults\<close> tells whether a memory call of this save throws.\<close>

definition memoryCallsThrow :: "world \<Rightarrow> bool" where
  "memoryCallsThrow w = (case persistFaults w of True # fs \<Rightarrow> True | _ \<Rightarrow> False)"

definition saveCoverageState :: "ref \<Rightarrow> world \<Rightarrow> outcome" where
  "saveCoverageState a w =
     (if memoryCallsThrow w
      then logger ErrorSavingCoverageState (w\<lparr>persistFaults := tl (persistFaults w)\<rparr>)
      else Inr (w\<lparr>persistFaults := tl (persistFaults w),
                  memories := upsert (heap w a) (memories w),
                  coverageStateCache := (coverageStateCache w)(roomId (heap w a) \<mapsto> a)\<rparr>))"

text \<open>What \<^verbatim>\<open>getMemories\<close> with \<^verbatim>\<open>count: 1\<close> finds for a room: the durable state.\<close>

definition storedState :: "memory list \<Rightarrow> UUID \<Rightarrow> CoverageState option" where
  "storedState ms rid = map_option mem_metadata (find (\<lambda>m. mem_roomId m = rid) ms)"

text \<open>\<^verbatim>\<open>loadCoverageState\<close>, lines 175-198: every row whose metadata has a truthy
  \<^verbatim>\<open>roomId\<close> is put into the cache under that id (at most 100 rows are asked for).\<close>

fun load_rows :: "memory list \<Rightarrow> world \<Rightarrow> world" where
  "load_rows [] w = w"
| "load_rows (m # ms) w =
     (if roomId (mem_metadata m) \<noteq> []
      then (case alloc (mem_metadata m) w of
              (a, w1) \<Rightarrow>
                load_rows ms
                  (w1\<lparr>coverageStateCache :=
                        (coverageStateCache w1)(roomId (mem_metadata m) \<mapsto> a)\<rparr>))
      else load_rows ms w)"

definition loadCoverageState :: "world \<Rightarrow> outcome" where
  "loadCoverageState w =
     (if memoryCallsThrow w
      then logger ErrorLoadingCoverageState (w\<lparr>persistFaults := tl (persistFaults w)\<rparr>)
      else (let rows = take 100 (memories w);
                w1 = load_rows rows (w\<lparr>persistFaults := tl (persistFaults w)\<rparr>)
            in case logger (LoadedCoverageStates (length rows)) w1 of
                 Inl (e, w2) \<Rightarrow> logger ErrorLoadingCoverageState w2
               | Inr w2 \<Rightarrow> Inr w2))"

subsection \<open>Mentions and strikes\<close>

text \<open>\<^verbatim>\<open>recordMention(roomId)\<close>, lines 269-298. In the \<^verbatim>\<open>else\<close> branch the object
  from the cache is assigned to before \<^verbatim>\<open>saveCoverageState\<close> runs, and the 24h test
  reads \<^verbatim>\<open>state.lastMentionAt\<close> after it has been set to \<^verbatim>\<open>Date.now()\<close>.\<close>

definition recordMention :: "UUID \<Rightarrow> int \<Rightarrow> world \<Rightarrow> outcome" where
  "recordMention rid now w =
     (case getOutputRoomConfig w rid of
        None \<Rightarrow> Inr w
      | Some roomConfig \<Rightarrow>
          (case getCoverageState w rid of
             None \<Rightarrow>
               (case alloc \<lparr> roomId = rid, roomName = name roomConfig,
                              platform = cfg_platform roomConfig,
                              lastMentionAt = now, mentionCount24h = 1,
                              cadenceMs = or_default (cfg_cadenceMs roomConfig)
                                            (defaultCadenceMs (reporterConfig w)),
                              strikes = 0, mutedUntil = None \<rparr> w of
                  (a, w1) \<Rightarrow> saveCoverageState a w1)
           | Some a \<Rightarrow>
               (let w1 = modify a (\<lambda>s. s\<lparr>lastMentionAt := now\<rparr>) w;
                    w2 = modify a (\<lambda>s. s\<lparr>mentionCount24h := mentionCount24h s + 1\<rparr>) w1;
                    oneDayAgo = now - 24 * 60 * 60 * 1000;
                    w3 = (if lastMentionAt (heap w2 a) < oneDayAgo
                          then modify a (\<lambda>s. s\<lparr>mentionCount24h := 1\<rparr>) w2 else w2)
                in saveCoverageState a w3)))"

text \<open>\<^verbatim>\<open>recordStrike(roomId)\<close>, lines 343-373. The cache is consulted first; the
  registry only when the cache has no state.\<close>

definition autoMute :: "ref \<Rightarrow> int \<Rightarrow> world \<Rightarrow> outcome" where
  "autoMute a now w =
     (if strikes (heap w a) \<ge> 2
      then (let w1 = modify a (\<lambda>s. s\<lparr>mutedUntil :=
                        Some (now + strikeMuteHours (reporterConfig w) * 60 * 60 * 1000)\<rparr>) w
            in logger (RoomAutoMuted (roomName (heap w1 a)) (strikes (heap w1 a))) w1)
      else Inr w)"

definition recordStrike :: "UUID \<Rightarrow> int \<Rightarrow> world \<Rightarrow> outcome" where
  "recordStrike rid now w =
     (case getCoverageState w rid of
        None \<Rightarrow>
          (case getOutputRoomConfig w rid of
             None \<Rightarrow> Inr w
           | Some roomConfig \<Rightarrow>
               (case alloc \<lparr> roomId = rid, roomName = name roomConfig,
                              platform = cfg_platform roomConfig,
                              lastMentionAt = now, mentionCount24h = 0,
                              cadenceMs = or_default (cfg_cadenceMs roomConfig)
                                            (defaultCadenceMs (reporterConfig w)),
                              strikes = 1, mutedUntil = None \<rparr> w of
                  (a, w1) \<Rightarrow> and_then (autoMute a now w1) (saveCoverageState a)))
      | Some a \<Rightarrow>
          and_then (autoMute a now (modify a (\<lambda>s. s\<lparr>strikes := strikes s + 1\<rparr>) w))
            (saveCoverageState a))"

subsection \<open>The coverage pump\<close>

text \<open>The three \<^verbatim>\<open>continue\<close> tests of the loop body, lines 462-477, in their order,
  and the fall-through. \<^verbatim>\<open>state.mutedUntil && now < state.mutedUntil\<close> is falsy for an
  unset field and for \<^verbatim>\<open>0\<close>.\<close>

definition isMuted :: "int \<Rightarrow> CoverageState \<Rightarrow> bool" where
  "isMuted now state = (case mutedUntil state of None \<Rightarrow> False | Some m \<Rightarrow> m \<noteq> 0 \<and> now < m)"

definition capReached :: "reporter_config \<Rightarrow> int \<Rightarrow> CoverageState \<Rightarrow> bool" where
  "capReached cfg now state =
     (let oneDayAgo = now - 24 * 60 * 60 * 1000
      in lastMentionAt state > oneDayAgo \<and> mentionCount24h state \<ge> dailyMentionCap cfg)"

definition tooSoon :: "int \<Rightarrow> CoverageState \<Rightarrow> bool" where
  "tooSoon now state = (let gap = now - lastMentionAt state in gap < cadenceMs state)"

datatype verdict = Muted | Capped | TooSoon | Passed

definition gauntlet :: "reporter_config \<Rightarrow> int \<Rightarrow> CoverageState \<Rightarrow> verdict" where
  "gauntlet cfg now state =
     (if isMuted now state then Muted
      else if capReached cfg now state then Capped
      else if tooSoon now state then TooSoon
      else Passed)"

text \<open>Step 4 of the loop body, lines 479-487.\<close>

definition strikeDecay :: "ref \<Rightarrow> int \<Rightarrow> world \<Rightarrow> outcome" where
  "strikeDecay a now w =
     (if strikes (heap w a) > 0
      then (let lastStrikeAgo = now - lastMentionAt (heap w a);
                decayMs = strikeDecayHours (reporterConfig w) * 60 * 60 * 1000
            in if lastStrikeAgo > decayMs
               then saveCoverageState a
                      (modify a (\<lambda>s. s\<lparr>strikes := max 0 (strikes s - 1)\<rparr>) w)
               else Inr w)
      else Inr w)"

text \<open>The loop body from the mute test on, for the state object \<open>a\<close>.\<close>

definition safeguards :: "ref \<Rightarrow> int \<Rightarrow> world \<Rightarrow> outcome" where
  "safeguards a now w =
     (case gauntlet (reporterConfig w) now (heap w a) of
        Passed \<Rightarrow>
          and_then (strikeDecay a now w)
            (\<lambda>w1. logger (CoverageGapDetected (roomName (heap w1 a))
                             (now - lastMentionAt (heap w a))) w1)
      | _ \<Rightarrow> Inr w)"

text \<open>One iteration of the loop of \<^verbatim>\<open>coveragePumpTick\<close>, lines 441-495.\<close>

definition pumpRoom :: "int \<Rightarrow> UUID \<times> OutputRoomConfig \<Rightarrow> world \<Rightarrow> outcome" where
  "pumpRoom now entry w =
     (case entry of (rid, roomConfig) \<Rightarrow>
        (case getCoverageState w rid of
           Some a \<Rightarrow> safeguards a now w
         | None \<Rightarrow>
             (case alloc \<lparr> roomId = rid, roomName = name roomConfig,
                            platform = cfg_platform roomConfig,
                            lastMentionAt = 0, mentionCount24h = 0,
                            cadenceMs = or_default (cfg_cadenceMs roomConfig)
                                          (defaultCadenceMs (reporterConfig w)),
                            strikes = 0, mutedUntil = None \<rparr> w of
                (a, w1) \<Rightarrow> and_then (saveCoverageState a w1) (safeguards a now))))"

text \<open>The \<^verbatim>\<open>for\<close> loop: an exception that leaves an iteration leaves the loop.\<close>

fun pumpLoop :: "int \<Rightarrow> (UUID \<times> OutputRoomConfig) list \<Rightarrow> world \<Rightarrow> outcome" where
  "pumpLoop now [] w = Inr w"
| "pumpLoop now (entry # rest) w =
     (case pumpRoom now entry w of
        Inl e \<Rightarrow> Inl e
      | Inr w1 \<Rightarrow> pumpLoop now rest w1)"

text \<open>\<^verbatim>\<open>coveragePumpTick\<close>, lines 437-499: one \<^verbatim>\<open>try\<close> around the whole loop.\<close>

definition coveragePumpTick :: "int \<Rightarrow> world \<Rightarrow> outcome" where
  "coveragePumpTick now w =
     (case pumpLoop now (outputRooms w) w of
        Inl (e, w1) \<Rightarrow> logger ErrorInCoveragePump w1
      | Inr w1 \<Rightarrow> Inr w1)"

subsection \<open>The STORY_PROMPT provider\<close>

text \<open>The fields of a story that the provider reads; \<open>story_sources\<close> holds the
  \<^verbatim>\<open>platform\<close> of each entry of \<^verbatim>\<open>s.sources\<close>.\<close>

record story =
  title :: string
  summary :: string
  momentum :: string
  confidence :: real
  story_sources :: "string list"






subsection \<open>Invariant of the cache, and what one operation may change\<close>

text \<open>Every cached reference denotes an allocated object, and the object carries the
  room id it is cached under: \<^verbatim>\<open>cache.set(state.roomId, state)\<close> and
  \<^verbatim>\<open>cache.set(meta.roomId, meta)\<close> are the only writes, and no method assigns
  \<^verbatim>\<open>roomId\<close>.\<close>

definition cache_ok :: "world \<Rightarrow> bool" where
  "cache_ok w =
     (\<forall>k a. coverageStateCache w k = Some a \<longrightarrow> a < nextRef w \<and> roomId (heap w a) = k)"

text \<open>An operation on room \<open>rid\<close> keeps the invariant and the configuration, and leaves
  what is visible of every other room as it was.\<close>

definition touches_only :: "UUID \<Rightarrow> world \<Rightarrow> world \<Rightarrow> bool" where
  "touches_only rid w v =
     (cache_ok v \<and> nextRef w \<le> nextRef v \<and> reporterConfig v = reporterConfig w
      \<and> (\<forall>k. k \<noteq> rid \<longrightarrow> visibleState v k = visibleState w k))"

text \<open>No logger call throws.\<close>

definition loggerWorks :: "world \<Rightarrow> bool" where
  "loggerWorks w = (\<forall>e. \<not> logThrows w e)"

text \<open>A call returned normally and left the logger as it was.\<close>

definition returns :: "world \<Rightarrow> outcome \<Rightarrow> bool" where
  "returns w r = (case r of Inl e \<Rightarrow> False | Inr v \<Rightarrow> logThrows v = logThrows w)"

text \<open>The loop as the specification describes it: the iteration of every destination
  is run, whatever happened in the one before.\<close>

fun isolatedLoop :: "int \<Rightarrow> (UUID \<times> OutputRoomConfig) list \<Rightarrow> world \<Rightarrow> world" where
  "isolatedLoop now [] w = w"
| "isolatedLoop now (entry # rest) w = isolatedLoop now rest (world_of (pumpRoom now entry w))"

text \<open>What one loop iteration does to the fields of an existing state.\<close>

definition decayed :: "reporter_config \<Rightarrow> int \<Rightarrow> CoverageState \<Rightarrow> CoverageState" where
  "decayed cfg now st =
     (if gauntlet cfg now st = Passed \<and> strikes st > 0
         \<and> now - lastMentionAt st > strikeDecayHours cfg * 60 * 60 * 1000
      then st\<lparr>strikes := max 0 (strikes st - 1)\<rparr> else st)"

subsection \<open>Example worlds\<close>

definition blank_state :: CoverageState where
  "blank_state = \<lparr> roomId = [], roomName = [], platform = [], lastMentionAt = 0,
                    mentionCount24h = 0, cadenceMs = 0, strikes = 0, mutedUntil = None \<rparr>"

definition news_room :: OutputRoomConfig where
  "news_room = \<lparr> channelId = ''1470581332903067874'', cfg_roomId = Some ''r1'',
                  name = ''#news'', cfg_platform = ''discord'', cfg_cadenceMs = None,
                  sourceFilter = None, archetype = None \<rparr>"

definition alerts_room :: OutputRoomConfig where
  "alerts_room = \<lparr> channelId = ''1470581332903067875'', cfg_roomId = Some ''r2'',
                    name = ''#alerts'', cfg_platform = ''discord'',
                    cfg_cadenceMs = Some 1800000, sourceFilter = None, archetype = None \<rparr>"

text \<open>A service just constructed with default settings and two output rooms.\<close>

definition started :: world where
  "started = \<lparr> reporterConfig = mk_reporterConfig no_settings,
                coverageStateCache = Map.empty,
                outputRooms = [(''r1'', news_room), (''r2'', alerts_room)],
                heap = (\<lambda>_. blank_state), nextRef = 0, memories = [], persistFaults = [],
                logThrows = (\<lambda>_. False), logged = [] \<rparr>"

definition news_state :: "int \<Rightarrow> int \<Rightarrow> int \<Rightarrow> int option \<Rightarrow> CoverageState" where
  "news_state lastAt cnt str muted =
     \<lparr> roomId = ''r1'', roomName = ''#news'', platform = ''discord'', lastMentionAt = lastAt,
       mentionCount24h = cnt, cadenceMs = 7200000, strikes = str, mutedUntil = muted \<rparr>"

text \<open>The state of a room that was an output room in an earlier run and is no longer
  configured.\<close>

definition retired_state :: CoverageState where
  "retired_state =
     \<lparr> roomId = ''r9'', roomName = ''#old'', platform = ''discord'',
       lastMentionAt = 1699990000000, mentionCount24h = 3, cadenceMs = 7200000,
       strikes = 1, mutedUntil = None \<rparr>"

definition row :: "CoverageState \<Rightarrow> memory" where
  "row st = \<lparr> mem_has_id = True, mem_roomId = roomId st, mem_metadata = st \<rparr>"

text \<open>A service started on a memory table that holds one row.\<close>

definition restarted :: "CoverageState \<Rightarrow> world" where
  "restarted st = world_of (loadCoverageState (started\<lparr>memories := [row st]\<rparr>))"

text \<open>The same, with the memory calls of the next save throwing.\<close>

definition restarted_failing :: "CoverageState \<Rightarrow> world" where
  "restarted_failing st = (restarted st)\<lparr>persistFaults := [True]\<rparr>"

definition started_failing :: world where
  "started_failing = started\<lparr>persistFaults := [True]\<rparr>"

text \<open>A started service whose logger throws on the debug record of room \<^verbatim>\<open>#news\<close>.\<close>

definition started_debug_throws :: world where
  "started_debug_throws =
     started\<lparr>logThrows := (\<lambda>e. case e of CoverageGapDetected n g \<Rightarrow> n = ''#news'' | _ \<Rightarrow> False)\<rparr>"

definition rising_story :: story where
  "rising_story = \<lparr> title = ''Whales move'', summary = ''Large transfers'',
                     momentum = ''growing'', confidence = 0.9, story_sources = [''babylon''] \<rparr>"

section \<open>Properties\<close>

subsection \<open>Saving\<close>

lemma saveCoverageState_heap: "heap (world_of (saveCoverageState a w)) = heap w"
  by (simp add: saveCoverageState_def logger_def)

lemma saveCoverageState_nextRef: "nextRef (world_of (saveCoverageState a w)) = nextRef w"
  by (simp add: saveCoverageState_def logger_def)

lemma saveCoverageState_cached:
  "getCoverageState w rid = Some a \<Longrightarrow>
     getCoverageState (world_of (saveCoverageState a w)) rid = Some a"
  by (auto simp add: saveCoverageState_def logger_def getCoverageState_def)

lemma saveCoverageState_visible:
  "getCoverageState w rid = Some a \<Longrightarrow>
     visibleState (world_of (saveCoverageState a w)) rid = Some (heap w a)"
  by (simp add: visibleState_def saveCoverageState_cached saveCoverageState_heap)

lemma failed_save_visible:
  "memoryCallsThrow w \<Longrightarrow> visibleState (world_of (saveCoverageState a w)) = visibleState w"
  by (simp add: saveCoverageState_def logger_def visibleState_def getCoverageState_def fun_eq_iff)

lemma failed_save_logged:
  "memoryCallsThrow w \<Longrightarrow> loggerWorks w \<Longrightarrow>
     saveCoverageState a w =
       Inr (w\<lparr>persistFaults := tl (persistFaults w),
              logged := logged w @ [ErrorSavingCoverageState]\<rparr>)"
  by (simp add: saveCoverageState_def logger_def loggerWorks_def)

lemma successful_save_stored:
  assumes "\<not> memoryCallsThrow w"
  shows "memories (world_of (saveCoverageState a w)) = upsert (heap w a) (memories w)"
  using assms by (simp add: saveCoverageState_def)

lemma upsert_stored:
  "\<forall>m \<in> set ms. mem_has_id m \<Longrightarrow> storedState (upsert st ms) (roomId st) = Some st"
  by (induction ms) (simp_all add: storedState_def)

lemma logger_visible: "visibleState (world_of (logger e w)) = visibleState w"
  by (simp add: logger_def visibleState_def getCoverageState_def fun_eq_iff)

lemma logger_memories: "memories (world_of (logger e w)) = memories w"
  by (simp add: logger_def)

lemma world_of_and_then_visible:
  assumes "\<And>v. visibleState (world_of (f v)) = visibleState v"
  shows "visibleState (world_of (and_then r f)) = visibleState (world_of r)"
  using assms by (cases r) (auto simp add: and_then_def)

lemma and_then_save_visible:
  assumes "getCoverageState (world_of r) rid = Some a"
  shows "visibleState (world_of (and_then r (saveCoverageState a))) rid
           = Some (heap (world_of r) a)"
proof (cases r)
  case (Inl e)
  then show ?thesis using assms by (cases e) (simp add: and_then_def visibleState_def)
next
  case (Inr v)
  then show ?thesis
    using assms saveCoverageState_visible[of v rid a] by (simp add: and_then_def)
qed

subsection \<open>Mentions\<close>

lemma recordMention_unregistered:
  "getOutputRoomConfig w rid = None \<Longrightarrow> recordMention rid now w = Inr w"
  by (simp add: recordMention_def)

lemma recordMention_existing:
  assumes "getOutputRoomConfig w rid = Some rc" and "getCoverageState w rid = Some a"
  shows "visibleState (world_of (recordMention rid now w)) rid
           = Some ((heap w a)\<lparr>lastMentionAt := now,
                                 mentionCount24h := mentionCount24h (heap w a) + 1\<rparr>)"
proof -
  let ?w3 = "modify a (\<lambda>s. s\<lparr>mentionCount24h := mentionCount24h s + 1\<rparr>)
               (modify a (\<lambda>s. s\<lparr>lastMentionAt := now\<rparr>) w)"
  have c: "getCoverageState ?w3 rid = Some a"
    using assms(2) by (simp add: getCoverageState_def modify_def)
  have "recordMention rid now w = saveCoverageState a ?w3"
    using assms by (simp add: recordMention_def Let_def modify_def)
  then show ?thesis
    using saveCoverageState_visible[OF c] by (simp add: modify_def)
qed

subsection \<open>Strikes\<close>

lemma recordStrike_unknown:
  "getCoverageState w rid = None \<Longrightarrow> getOutputRoomConfig w rid = None \<Longrightarrow>
     recordStrike rid now w = Inr w"
  by (simp add: recordStrike_def)

lemma autoMute_facts:
  "coverageStateCache (world_of (autoMute a now w)) = coverageStateCache w"
  "heap (world_of (autoMute a now w)) a =
     (if strikes (heap w a) \<ge> 2
      then (heap w a)\<lparr>mutedUntil :=
             Some (now + strikeMuteHours (reporterConfig w) * 60 * 60 * 1000)\<rparr>
      else heap w a)"
  by (simp_all add: autoMute_def logger_def modify_def Let_def)

lemma recordStrike_existing:
  assumes "getCoverageState w rid = Some a"
  shows "visibleState (world_of (recordStrike rid now w)) rid =
           Some (if strikes (heap w a) + 1 \<ge> 2
                 then (heap w a)\<lparr>strikes := strikes (heap w a) + 1,
                        mutedUntil :=
                          Some (now + strikeMuteHours (reporterConfig w) * 60 * 60 * 1000)\<rparr>
                 else (heap w a)\<lparr>strikes := strikes (heap w a) + 1\<rparr>)"
proof -
  let ?w1 = "modify a (\<lambda>s. s\<lparr>strikes := strikes s + 1\<rparr>) w"
  have r: "recordStrike rid now w = and_then (autoMute a now ?w1) (saveCoverageState a)"
    using assms by (simp add: recordStrike_def)
  have c: "getCoverageState (world_of (autoMute a now ?w1)) rid = Some a"
    using assms by (simp add: getCoverageState_def autoMute_facts(1) modify_def)
  show ?thesis
    unfolding r and_then_save_visible[OF c] autoMute_facts(2)
    by (simp add: modify_def)
qed

lemma recordStrike_fresh:
  assumes "getOutputRoomConfig w rid = Some rc" and "getCoverageState w rid = None"
    and "\<not> memoryCallsThrow w"
  shows "recordStrike rid now w =
           Inr (w\<lparr> heap := (heap w)(nextRef w :=
                      \<lparr> roomId = rid, roomName = name rc, platform = cfg_platform rc,
                        lastMentionAt = now, mentionCount24h = 0,
                        cadenceMs = or_default (cfg_cadenceMs rc)
                                      (defaultCadenceMs (reporterConfig w)),
                        strikes = 1, mutedUntil = None \<rparr>),
                   nextRef := Suc (nextRef w),
                   persistFaults := tl (persistFaults w),
                   memories := upsert
                      \<lparr> roomId = rid, roomName = name rc, platform = cfg_platform rc,
                        lastMentionAt = now, mentionCount24h = 0,
                        cadenceMs = or_default (cfg_cadenceMs rc)
                                      (defaultCadenceMs (reporterConfig w)),
                        strikes = 1, mutedUntil = None \<rparr> (memories w),
                   coverageStateCache := (coverageStateCache w)(rid \<mapsto> nextRef w) \<rparr>)"
  using assms
  by (simp add: recordStrike_def alloc_def autoMute_def and_then_def saveCoverageState_def
      memoryCallsThrow_def)

subsection \<open>One loop iteration\<close>


lemma pumpRoom_decay:
  assumes "getCoverageState w rid = Some a"
    and "gauntlet (reporterConfig w) now (heap w a) = Passed"
    and "strikes (heap w a) > 0"
    and "now - lastMentionAt (heap w a) > strikeDecayHours (reporterConfig w) * 60 * 60 * 1000"
  shows "visibleState (world_of (pumpRoom now (rid, rc) w)) rid
           = Some ((heap w a)\<lparr>strikes := strikes (heap w a) - 1\<rparr>)"
    and "\<not> memoryCallsThrow w \<Longrightarrow>
           memories (world_of (pumpRoom now (rid, rc) w))
             = upsert ((heap w a)\<lparr>strikes := strikes (heap w a) - 1\<rparr>) (memories w)"
proof -
  let ?w1 = "modify a (\<lambda>s. s\<lparr>strikes := max 0 (strikes s - 1)\<rparr>) w"
  have c: "getCoverageState ?w1 rid = Some a"
    using assms(1) by (simp add: getCoverageState_def modify_def)
  have p: "pumpRoom now (rid, rc) w =
             and_then (saveCoverageState a ?w1)
               (\<lambda>w1. logger (CoverageGapDetected (roomName (heap w1 a))
                                (now - lastMentionAt (heap w a))) w1)"
    using assms by (simp add: pumpRoom_def safeguards_def strikeDecay_def)
  have "visibleState (world_of (pumpRoom now (rid, rc) w))
          = visibleState (world_of (saveCoverageState a ?w1))"
    unfolding p by (rule world_of_and_then_visible) (simp add: logger_visible)
  then show "visibleState (world_of (pumpRoom now (rid, rc) w)) rid
           = Some ((heap w a)\<lparr>strikes := strikes (heap w a) - 1\<rparr>)"
    using saveCoverageState_visible[OF c] assms(3) by (simp add: modify_def max_def)
  assume ok: "\<not> memoryCallsThrow w"
  then have ok1: "\<not> memoryCallsThrow ?w1" by (simp add: memoryCallsThrow_def modify_def)
  have "memories (world_of (pumpRoom now (rid, rc) w))
          = memories (world_of (saveCoverageState a ?w1))"
    unfolding p using ok1
    by (simp add: and_then_def saveCoverageState_def logger_memories)
  then show "memories (world_of (pumpRoom now (rid, rc) w))
             = upsert ((heap w a)\<lparr>strikes := strikes (heap w a) - 1\<rparr>) (memories w)"
    using successful_save_stored[OF ok1, of a] assms(3) by (simp add: modify_def max_def)
qed

lemma pumpRoom_visible:
  assumes "visibleState w rid = Some st"
  shows "visibleState (world_of (pumpRoom now (rid, rc) w)) rid
           = Some (decayed (reporterConfig w) now st)"
proof -
  from assms obtain a where a: "getCoverageState w rid = Some a" "heap w a = st"
    by (auto simp add: visibleState_def)
  show ?thesis
  proof (cases "gauntlet (reporterConfig w) now st = Passed \<and> strikes st > 0
           \<and> now - lastMentionAt st > strikeDecayHours (reporterConfig w) * 60 * 60 * 1000")
    case True
    then show ?thesis
      using pumpRoom_decay(1)[OF a(1), of now rc] a(2) by (simp add: decayed_def max_def)
  next
    case False
    have "visibleState (world_of (pumpRoom now (rid, rc) w)) = visibleState w"
      using a False
      by (auto simp add: pumpRoom_def safeguards_def strikeDecay_def and_then_def
          logger_visible Let_def split: verdict.splits)
    with assms False show ?thesis by (simp add: decayed_def)
  qed
qed

subsection \<open>A failed write of a new state\<close>

lemma alloc_visible:
  assumes "cache_ok w"
  shows "visibleState (snd (alloc st w)) = visibleState w"
proof
  fix k
  show "visibleState (snd (alloc st w)) k = visibleState w k"
  proof (cases "coverageStateCache w k")
    case None
    then show ?thesis by (simp add: alloc_def visibleState_def getCoverageState_def)
  next
    case (Some b)
    with assms have "b \<noteq> nextRef w" by (auto simp add: cache_ok_def)
    with Some show ?thesis by (simp add: alloc_def visibleState_def getCoverageState_def)
  qed
qed

lemma safeguards_no_strikes_visible:
  assumes "strikes (heap w a) = 0"
  shows "visibleState (world_of (safeguards a now w)) = visibleState w"
  using assms
  by (simp add: safeguards_def strikeDecay_def and_then_def logger_visible
      split: verdict.splits)

lemma failed_creation_invisible:
  assumes "cache_ok w" and "memoryCallsThrow w" and "getCoverageState w rid = None"
  shows "visibleState (world_of (recordMention rid now w)) = visibleState w"
    and "visibleState (world_of (recordStrike rid now w)) = visibleState w"
    and "visibleState (world_of (pumpRoom now (rid, rc) w)) = visibleState w"
proof -
  have nw: "\<And>st. memoryCallsThrow (snd (alloc st w))"
    using assms(2) by (simp add: memoryCallsThrow_def alloc_def)
  have sv: "\<And>st. visibleState (world_of (saveCoverageState (nextRef w) (snd (alloc st w))))
                  = visibleState w"
    using failed_save_visible[OF nw] alloc_visible[OF assms(1)] by simp
  show "visibleState (world_of (recordMention rid now w)) = visibleState w"
  proof (cases "getOutputRoomConfig w rid")
    case None
    then show ?thesis by (simp add: recordMention_def)
  next
    case (Some roomConfig)
    then show ?thesis
      using assms(3) sv
      by (simp add: recordMention_def split: prod.splits) (simp add: alloc_def)
  qed
  show "visibleState (world_of (recordStrike rid now w)) = visibleState w"
    using assms(3) sv
    by (simp add: recordStrike_def autoMute_def and_then_def alloc_def
        split: option.splits prod.splits)
  show "visibleState (world_of (pumpRoom now (rid, rc) w)) = visibleState w"
  proof -
    define st where "st = \<lparr> roomId = rid, roomName = name rc, platform = cfg_platform rc,
        lastMentionAt = 0, mentionCount24h = 0,
        cadenceMs = or_default (cfg_cadenceMs rc) (defaultCadenceMs (reporterConfig w)),
        strikes = 0, mutedUntil = None \<rparr>"
    let ?a = "nextRef w"
    let ?w1 = "snd (alloc st w)"
    have p: "pumpRoom now (rid, rc) w
               = and_then (saveCoverageState ?a ?w1) (safeguards ?a now)"
      using assms(3) by (simp add: pumpRoom_def st_def alloc_def)
    have h: "strikes (heap v ?a) = 0" if "saveCoverageState ?a ?w1 = Inr v" for v
    proof -
      from that have "heap v = heap ?w1"
        using saveCoverageState_heap[of ?a ?w1] by simp
      then show ?thesis by (simp add: alloc_def st_def)
    qed
    show ?thesis
    proof (cases "saveCoverageState ?a ?w1")
      case (Inl e)
      then show ?thesis using sv[of st] p by (simp add: and_then_def)
    next
      case (Inr v)
      then show ?thesis
        using sv[of st] p h[OF Inr] safeguards_no_strikes_visible[of v ?a now]
        by (simp add: and_then_def)
    qed
  qed
qed

subsection \<open>The whole tick when the logger works\<close>

lemma returnsE: "returns w r \<Longrightarrow> \<exists>v. r = Inr v \<and> logThrows v = logThrows w"
  by (cases r) (simp_all add: returns_def)

lemma returns_cong: "logThrows v = logThrows w \<Longrightarrow> returns v r = returns w r"
  by (simp add: returns_def split: sum.splits)

lemma logger_returns: "loggerWorks w \<Longrightarrow> returns w (logger e w)"
  by (simp add: loggerWorks_def returns_def logger_def)

lemma save_returns: "loggerWorks w \<Longrightarrow> returns w (saveCoverageState a w)"
  by (simp add: loggerWorks_def returns_def logger_def saveCoverageState_def)

lemma and_then_returns:
  assumes "returns w r" and "\<And>v. logThrows v = logThrows w \<Longrightarrow> returns v (f v)"
  shows "returns w (and_then r f)"
proof -
  from returnsE[OF assms(1)] obtain v where v: "r = Inr v" "logThrows v = logThrows w"
    by blast
  from assms(2)[OF v(2)] v show ?thesis
    by (simp add: and_then_def returns_def split: sum.splits)
qed

lemma strikeDecay_returns:
  assumes "loggerWorks w" shows "returns w (strikeDecay a now w)"
proof -
  let ?w1 = "modify a (\<lambda>s. s\<lparr>strikes := max 0 (strikes s - 1)\<rparr>) w"
  have "loggerWorks ?w1" using assms by (simp add: loggerWorks_def modify_def)
  moreover have lt: "logThrows ?w1 = logThrows w" by (simp add: modify_def)
  ultimately have "returns w (saveCoverageState a ?w1)"
    using save_returns[of ?w1 a] returns_cong[OF lt] by simp
  then show ?thesis by (simp add: strikeDecay_def Let_def returns_def)
qed

lemma safeguards_returns:
  assumes "loggerWorks w" shows "returns w (safeguards a now w)"
proof (cases "gauntlet (reporterConfig w) now (heap w a)")
  case Passed
  have "returns w (and_then (strikeDecay a now w)
            (\<lambda>w1. logger (CoverageGapDetected (roomName (heap w1 a))
                             (now - lastMentionAt (heap w a))) w1))"
  proof (rule and_then_returns)
    show "returns w (strikeDecay a now w)" by (rule strikeDecay_returns[OF assms])
  next
    fix v :: world assume "logThrows v = logThrows w"
    then have "loggerWorks v" using assms by (simp add: loggerWorks_def)
    then show "returns v (logger (CoverageGapDetected (roomName (heap v a))
                                    (now - lastMentionAt (heap w a))) v)"
      by (rule logger_returns)
  qed
  with Passed show ?thesis by (simp add: safeguards_def)
qed (simp_all add: safeguards_def returns_def)

lemma pumpRoom_returns:
  assumes "loggerWorks w" shows "returns w (pumpRoom now entry w)"
proof (cases entry)
  case (Pair rid rc)
  show ?thesis
  proof (cases "getCoverageState w rid")
    case (Some a)
    with Pair show ?thesis using safeguards_returns[OF assms] by (simp add: pumpRoom_def)
  next
    case None
    define st where "st = \<lparr> roomId = rid, roomName = name rc, platform = cfg_platform rc,
        lastMentionAt = 0, mentionCount24h = 0,
        cadenceMs = or_default (cfg_cadenceMs rc) (defaultCadenceMs (reporterConfig w)),
        strikes = 0, mutedUntil = None \<rparr>"
    let ?w1 = "snd (alloc st w)"
    have l: "logThrows ?w1 = logThrows w" by (simp add: alloc_def)
    then have lw: "loggerWorks ?w1" using assms by (simp add: loggerWorks_def)
    have "returns ?w1 (and_then (saveCoverageState (nextRef w) ?w1)
                          (safeguards (nextRef w) now))"
    proof (rule and_then_returns)
      show "returns ?w1 (saveCoverageState (nextRef w) ?w1)" by (rule save_returns[OF lw])
    next
      fix v :: world assume "logThrows v = logThrows ?w1"
      then have "loggerWorks v" using lw by (simp add: loggerWorks_def)
      then show "returns v (safeguards (nextRef w) now v)" by (rule safeguards_returns)
    qed
    then have "returns w (and_then (saveCoverageState (nextRef w) ?w1)
                            (safeguards (nextRef w) now))"
      using returns_cong[OF l] by simp
    with Pair None show ?thesis by (simp add: pumpRoom_def st_def alloc_def)
  qed
qed

lemma pumpLoop_isolated:
  "loggerWorks w \<Longrightarrow> pumpLoop now rooms w = Inr (isolatedLoop now rooms w)"
proof (induction rooms arbitrary: w)
  case Nil
  then show ?case by simp
next
  case (Cons entry rest)
  from returnsE[OF pumpRoom_returns[OF Cons.prems, of now entry]]
  obtain v where v: "pumpRoom now entry w = Inr v" "logThrows v = logThrows w" by blast
  then have "loggerWorks v" using Cons.prems by (simp add: loggerWorks_def)
  from Cons.IH[OF this] v show ?case by simp
qed

subsection \<open>An iteration touches one room only\<close>

lemma touches_only_refl: "cache_ok w \<Longrightarrow> touches_only rid w w"
  by (simp add: touches_only_def)

lemma touches_only_trans:
  "touches_only rid w v \<Longrightarrow> touches_only rid v u \<Longrightarrow> touches_only rid w u"
  by (simp add: touches_only_def)

lemma touches_logger: "cache_ok w \<Longrightarrow> touches_only rid w (world_of (logger e w))"
  by (simp add: touches_only_def logger_def cache_ok_def visibleState_def getCoverageState_def)

lemma touches_alloc: "cache_ok w \<Longrightarrow> touches_only rid w (snd (alloc st w))"
  unfolding touches_only_def cache_ok_def alloc_def visibleState_def getCoverageState_def
  by (auto simp add: less_Suc_eq map_option_case split: option.splits)

lemma touches_modify:
  assumes "cache_ok w" and "roomId (heap w a) = rid" and "roomId (f (heap w a)) = rid"
  shows "touches_only rid w (modify a f w)"
  using assms
  unfolding touches_only_def cache_ok_def modify_def visibleState_def getCoverageState_def
  by (auto simp add: map_option_case split: option.splits)

lemma touches_save:
  assumes "cache_ok w" and "a < nextRef w" and "roomId (heap w a) = rid"
  shows "touches_only rid w (world_of (saveCoverageState a w))"
  using assms
  unfolding touches_only_def cache_ok_def saveCoverageState_def logger_def visibleState_def
    getCoverageState_def
  by (auto simp add: map_option_case split: option.splits)

lemma touches_and_then:
  assumes "touches_only rid w (world_of r)"
    and "\<And>v. r = Inr v \<Longrightarrow> touches_only rid v (world_of (f v))"
  shows "touches_only rid w (world_of (and_then r f))"
proof (cases r)
  case (Inl e)
  then show ?thesis using assms(1) by (cases e) (simp add: and_then_def)
next
  case (Inr v)
  then show ?thesis
    using assms touches_only_trans[of rid w v "world_of (f v)"] by (simp add: and_then_def)
qed

lemma touches_strikeDecay:
  assumes "cache_ok w" and "a < nextRef w" and "roomId (heap w a) = rid"
  shows "touches_only rid w (world_of (strikeDecay a now w))"
proof -
  let ?w1 = "modify a (\<lambda>s. s\<lparr>strikes := max 0 (strikes s - 1)\<rparr>) w"
  have m: "touches_only rid w ?w1" using assms by (intro touches_modify) simp_all
  have "touches_only rid ?w1 (world_of (saveCoverageState a ?w1))"
    using m assms by (intro touches_save) (simp_all add: touches_only_def modify_def)
  with m have "touches_only rid w (world_of (saveCoverageState a ?w1))"
    by (rule touches_only_trans)
  then show ?thesis using assms(1) by (simp add: strikeDecay_def Let_def touches_only_refl)
qed

lemma touches_safeguards:
  assumes "cache_ok w" and "a < nextRef w" and "roomId (heap w a) = rid"
  shows "touches_only rid w (world_of (safeguards a now w))"
proof (cases "gauntlet (reporterConfig w) now (heap w a)")
  case Passed
  have "touches_only rid w (world_of (and_then (strikeDecay a now w)
          (\<lambda>w1. logger (CoverageGapDetected (roomName (heap w1 a))
                           (now - lastMentionAt (heap w a))) w1)))"
  proof (rule touches_and_then)
    show d: "touches_only rid w (world_of (strikeDecay a now w))"
      by (rule touches_strikeDecay[OF assms])
    fix v assume "strikeDecay a now w = Inr v"
    with d have "cache_ok v" by (simp add: touches_only_def)
    then show "touches_only rid v
                 (world_of (logger (CoverageGapDetected (roomName (heap v a))
                                      (now - lastMentionAt (heap w a))) v))"
      by (rule touches_logger)
  qed
  with Passed show ?thesis by (simp add: safeguards_def)
qed (simp_all add: safeguards_def touches_only_refl[OF assms(1)])

lemma touches_pumpRoom:
  assumes "cache_ok w"
  shows "touches_only rid w (world_of (pumpRoom now (rid, rc) w))"
proof (cases "getCoverageState w rid")
  case (Some a)
  then have "a < nextRef w" "roomId (heap w a) = rid"
    using assms by (simp_all add: cache_ok_def getCoverageState_def)
  from touches_safeguards[OF assms this] Some show ?thesis by (simp add: pumpRoom_def)
next
  case None
  define st where "st = \<lparr> roomId = rid, roomName = name rc, platform = cfg_platform rc,
      lastMentionAt = 0, mentionCount24h = 0,
      cadenceMs = or_default (cfg_cadenceMs rc) (defaultCadenceMs (reporterConfig w)),
      strikes = 0, mutedUntil = None \<rparr>"
  let ?a = "nextRef w"
  let ?w1 = "snd (alloc st w)"
  have p: "pumpRoom now (rid, rc) w
             = and_then (saveCoverageState ?a ?w1) (safeguards ?a now)"
    using None by (simp add: pumpRoom_def st_def alloc_def)
  have a1: "touches_only rid w ?w1" by (rule touches_alloc[OF assms])
  have f: "?a < nextRef ?w1" "roomId (heap ?w1 ?a) = rid" by (simp_all add: alloc_def st_def)
  have s: "touches_only rid ?w1 (world_of (saveCoverageState ?a ?w1))"
    using a1 f by (intro touches_save) (simp_all add: touches_only_def)
  have "touches_only rid ?w1
          (world_of (and_then (saveCoverageState ?a ?w1) (safeguards ?a now)))"
  proof (rule touches_and_then[OF s])
    fix v assume v: "saveCoverageState ?a ?w1 = Inr v"
    then have "heap v = heap ?w1" "nextRef v = nextRef ?w1"
      using saveCoverageState_heap[of ?a ?w1] saveCoverageState_nextRef[of ?a ?w1] by simp_all
    moreover have "cache_ok v" using s v by (simp add: touches_only_def)
    ultimately show "touches_only rid v (world_of (safeguards ?a now v))"
      using f by (intro touches_safeguards) simp_all
  qed
  with a1 show ?thesis unfolding p by (rule touches_only_trans)
qed

lemma isolatedLoop_other_rooms:
  assumes "cache_ok w" and "rid \<notin> fst ` set rooms"
  shows "cache_ok (isolatedLoop now rooms w)
       \<and> reporterConfig (isolatedLoop now rooms w) = reporterConfig w
       \<and> visibleState (isolatedLoop now rooms w) rid = visibleState w rid"
  using assms
proof (induction rooms arbitrary: w)
  case Nil
  then show ?case by simp
next
  case (Cons entry rest)
  obtain k rc where e: "entry = (k, rc)" by (cases entry)
  with Cons.prems have k: "k \<noteq> rid" and r: "rid \<notin> fst ` set rest" by auto
  let ?v = "world_of (pumpRoom now (k, rc) w)"
  from touches_pumpRoom[OF Cons.prems(1), of k now rc] k
  have v: "cache_ok ?v" "reporterConfig ?v = reporterConfig w"
    "visibleState ?v rid = visibleState w rid"
    by (simp_all add: touches_only_def)
  from Cons.IH[OF v(1) r] v e show ?case by simp
qed

lemma isolatedLoop_this_room:
  assumes "cache_ok w" and "distinct (map fst rooms)" and "rid \<in> fst ` set rooms"
    and "visibleState w rid = Some st"
  shows "visibleState (isolatedLoop now rooms w) rid = Some (decayed (reporterConfig w) now st)"
  using assms
proof (induction rooms arbitrary: w)
  case Nil
  then show ?case by simp
next
  case (Cons entry rest)
  obtain k rc where e: "entry = (k, rc)" by (cases entry)
  let ?v = "world_of (pumpRoom now (k, rc) w)"
  from touches_pumpRoom[OF Cons.prems(1), of k now rc]
  have v: "cache_ok ?v" "reporterConfig ?v = reporterConfig w"
    and o: "k \<noteq> rid \<Longrightarrow> visibleState ?v rid = visibleState w rid"
    by (simp_all add: touches_only_def)
  show ?case
  proof (cases "k = rid")
    case True
    with Cons.prems(2) e have "rid \<notin> fst ` set rest" by auto
    from isolatedLoop_other_rooms[OF v(1) this, of now]
      pumpRoom_visible[OF Cons.prems(4), of now rc] True e
    show ?thesis by simp
  next
    case False
    with Cons.prems e have "rid \<in> fst ` set rest" "distinct (map fst rest)" by auto
    from Cons.IH[OF v(1) this(2) this(1)] o[OF False] Cons.prems(4) v(2) e
    show ?thesis by simp
  qed
qed

lemma tick_this_room:
  assumes "loggerWorks w" and "cache_ok w" and "distinct (map fst (outputRooms w))"
    and "isOutputRoom w rid" and "visibleState w rid = Some st"
  shows "visibleState (world_of (coveragePumpTick now w)) rid
           = Some (decayed (reporterConfig w) now st)"
proof -
  from assms(4) have "rid \<in> fst ` set (outputRooms w)"
    by (simp add: isOutputRoom_def map_of_eq_None_iff)
  from isolatedLoop_this_room[OF assms(2,3) this assms(5), of now]
    pumpLoop_isolated[OF assms(1), of now "outputRooms w"]
  show ?thesis by (simp add: coveragePumpTick_def)
qed

subsection \<open>The invariant holds from the start and is kept\<close>

lemma cache_ok_load_rows: "cache_ok w \<Longrightarrow> cache_ok (load_rows ms w)"
proof (induction ms arbitrary: w)
  case Nil
  then show ?case by simp
next
  case (Cons m ms)
  have "cache_ok (snd (alloc (mem_metadata m) w)
           \<lparr>coverageStateCache :=
              (coverageStateCache (snd (alloc (mem_metadata m) w)))
                (roomId (mem_metadata m) \<mapsto> fst (alloc (mem_metadata m) w))\<rparr>)"
    using Cons.prems unfolding cache_ok_def alloc_def by (auto simp add: less_Suc_eq)
  from Cons.IH[OF this] Cons.IH[OF Cons.prems] show ?case
    by (simp add: alloc_def split: prod.splits)
qed

lemma cache_ok_logger: "cache_ok (world_of (logger e v)) = cache_ok v"
  by (simp add: logger_def cache_ok_def)

lemma cache_ok_loadCoverageState:
  assumes "cache_ok w"
  shows "cache_ok (world_of (loadCoverageState w))"
proof -
  let ?w0 = "w\<lparr>persistFaults := tl (persistFaults w)\<rparr>"
  let ?rows = "take 100 (memories w)"
  let ?w1 = "load_rows ?rows ?w0"
  have t: "cache_ok ?w0" using assms by (simp add: cache_ok_def)
  have w1: "cache_ok ?w1" by (rule cache_ok_load_rows[OF t])
  show ?thesis
  proof (cases "memoryCallsThrow w")
    case True
    then show ?thesis using t by (simp add: loadCoverageState_def cache_ok_logger)
  next
    case False
    show ?thesis
    proof (cases "logThrows ?w1 (LoadedCoverageStates (length ?rows))")
      case True
      then have "logger (LoadedCoverageStates (length ?rows)) ?w1
                   = Inl (LoggerThrew (LoadedCoverageStates (length ?rows)), ?w1)"
        by (simp add: logger_def)
      with False have "loadCoverageState w = logger ErrorLoadingCoverageState ?w1"
        by (simp add: loadCoverageState_def Let_def)
      then show ?thesis using w1 by (simp add: cache_ok_logger)
    next
      case nothrow: False
      then have "logger (LoadedCoverageStates (length ?rows)) ?w1
                   = Inr (?w1\<lparr>logged := logged ?w1 @ [LoadedCoverageStates (length ?rows)]\<rparr>)"
        by (simp add: logger_def)
      with False have "loadCoverageState w
                   = Inr (?w1\<lparr>logged := logged ?w1 @ [LoadedCoverageStates (length ?rows)]\<rparr>)"
        by (simp add: loadCoverageState_def Let_def)
      then show ?thesis using w1 by (simp add: cache_ok_def)
    qed
  qed
qed

lemma cache_ok_started: "cache_ok started"
  by (simp add: cache_ok_def started_def)

lemma touches_recordMention:
  assumes "cache_ok w"
  shows "touches_only rid w (world_of (recordMention rid now w))"
proof (cases "getOutputRoomConfig w rid")
  case None
  then show ?thesis using assms by (simp add: recordMention_def touches_only_refl)
next
  case (Some rc)
  show ?thesis
  proof (cases "getCoverageState w rid")
    case None
    define st where "st = \<lparr> roomId = rid, roomName = name rc, platform = cfg_platform rc,
        lastMentionAt = now, mentionCount24h = 1,
        cadenceMs = or_default (cfg_cadenceMs rc) (defaultCadenceMs (reporterConfig w)),
        strikes = 0, mutedUntil = None \<rparr>"
    let ?a = "nextRef w"
    let ?w1 = "snd (alloc st w)"
    have p: "recordMention rid now w = saveCoverageState ?a ?w1"
      using None Some by (simp add: recordMention_def st_def alloc_def)
    have a1: "touches_only rid w ?w1" by (rule touches_alloc[OF assms])
    have "touches_only rid ?w1 (world_of (saveCoverageState ?a ?w1))"
      using a1 by (intro touches_save) (simp_all add: touches_only_def alloc_def st_def)
    with a1 show ?thesis unfolding p by (rule touches_only_trans)
  next
    case existing: (Some a)
    then have a: "a < nextRef w" "roomId (heap w a) = rid"
      using assms by (simp_all add: cache_ok_def getCoverageState_def)
    let ?f = "\<lambda>s. s\<lparr>lastMentionAt := now, mentionCount24h := mentionCount24h s + 1\<rparr>"
    let ?w1 = "modify a ?f w"
    have p: "recordMention rid now w = saveCoverageState a ?w1"
      using existing Some by (simp add: recordMention_def Let_def modify_def)
    have m: "touches_only rid w ?w1" using assms a by (intro touches_modify) simp_all
    have "touches_only rid ?w1 (world_of (saveCoverageState a ?w1))"
      using m a by (intro touches_save) (simp_all add: touches_only_def modify_def)
    with m show ?thesis unfolding p by (rule touches_only_trans)
  qed
qed

lemma touches_autoMute:
  assumes "cache_ok w" and "roomId (heap w a) = rid"
  shows "touches_only rid w (world_of (autoMute a now w))"
    and "nextRef (world_of (autoMute a now w)) = nextRef w"
    and "roomId (heap (world_of (autoMute a now w)) a) = rid"
proof -
  let ?f = "\<lambda>s. s\<lparr>mutedUntil := Some (now + strikeMuteHours (reporterConfig w) * 60 * 60 * 1000)\<rparr>"
  have m: "touches_only rid w (modify a ?f w)"
    using assms by (intro touches_modify) simp_all
  then have "touches_only rid (modify a ?f w) (world_of (logger e (modify a ?f w)))" for e
    by (intro touches_logger) (simp add: touches_only_def)
  with m have "touches_only rid w (world_of (logger e (modify a ?f w)))" for e
    by (rule touches_only_trans)
  then show "touches_only rid w (world_of (autoMute a now w))"
    using assms(1) by (simp add: autoMute_def Let_def touches_only_refl)
  show "nextRef (world_of (autoMute a now w)) = nextRef w"
    by (simp add: autoMute_def Let_def logger_def modify_def)
  show "roomId (heap (world_of (autoMute a now w)) a) = rid"
    using assms(2) by (simp add: autoMute_def Let_def logger_def modify_def)
qed

lemma touches_strike_tail:
  assumes "cache_ok w" and "a < nextRef w" and "roomId (heap w a) = rid"
  shows "touches_only rid w (world_of (and_then (autoMute a now w) (saveCoverageState a)))"
proof (rule touches_and_then)
  show "touches_only rid w (world_of (autoMute a now w))"
    by (rule touches_autoMute(1)[OF assms(1,3)])
  fix v assume v: "autoMute a now w = Inr v"
  from touches_autoMute[OF assms(1,3), of now] v assms(2)
  show "touches_only rid v (world_of (saveCoverageState a v))"
    by (intro touches_save) (simp_all add: touches_only_def)
qed

lemma touches_recordStrike:
  assumes "cache_ok w"
  shows "touches_only rid w (world_of (recordStrike rid now w))"
proof (cases "getCoverageState w rid")
  case (Some a)
  then have a: "a < nextRef w" "roomId (heap w a) = rid"
    using assms by (simp_all add: cache_ok_def getCoverageState_def)
  let ?w1 = "modify a (\<lambda>s. s\<lparr>strikes := strikes s + 1\<rparr>) w"
  have m: "touches_only rid w ?w1" using assms a by (intro touches_modify) simp_all
  have "touches_only rid ?w1 (world_of (and_then (autoMute a now ?w1) (saveCoverageState a)))"
    using m a by (intro touches_strike_tail) (simp_all add: touches_only_def modify_def)
  with m have "touches_only rid w (world_of (and_then (autoMute a now ?w1) (saveCoverageState a)))"
    by (rule touches_only_trans)
  with Some show ?thesis by (simp add: recordStrike_def)
next
  case None
  show ?thesis
  proof (cases "getOutputRoomConfig w rid")
    case unregistered: None
    with None show ?thesis using assms by (simp add: recordStrike_def touches_only_refl)
  next
    case (Some rc)
    define st where "st = \<lparr> roomId = rid, roomName = name rc, platform = cfg_platform rc,
        lastMentionAt = now, mentionCount24h = 0,
        cadenceMs = or_default (cfg_cadenceMs rc) (defaultCadenceMs (reporterConfig w)),
        strikes = 1, mutedUntil = None \<rparr>"
    let ?a = "nextRef w"
    let ?w1 = "snd (alloc st w)"
    have p: "recordStrike rid now w = and_then (autoMute ?a now ?w1) (saveCoverageState ?a)"
      using None Some by (simp add: recordStrike_def st_def alloc_def)
    have a1: "touches_only rid w ?w1" by (rule touches_alloc[OF assms])
    have "touches_only rid ?w1 (world_of (and_then (autoMute ?a now ?w1) (saveCoverageState ?a)))"
      using a1 by (intro touches_strike_tail) (simp_all add: touches_only_def alloc_def st_def)
    with a1 show ?thesis unfolding p by (rule touches_only_trans)
  qed
qed

lemma cache_ok_recordMention: "cache_ok w \<Longrightarrow> cache_ok (world_of (recordMention rid now w))"
  using touches_recordMention[of w rid now] by (simp add: touches_only_def)

lemma cache_ok_recordStrike: "cache_ok w \<Longrightarrow> cache_ok (world_of (recordStrike rid now w))"
  using touches_recordStrike[of w rid now] by (simp add: touches_only_def)

lemma cache_ok_pumpLoop: "cache_ok w \<Longrightarrow> cache_ok (world_of (pumpLoop now rooms w))"
proof (induction rooms arbitrary: w)
  case Nil
  then show ?case by simp
next
  case (Cons entry rest)
  obtain k rc where e: "entry = (k, rc)" by (cases entry)
  from touches_pumpRoom[OF Cons.prems, of k now rc]
  have v: "cache_ok (world_of (pumpRoom now entry w))" by (simp add: touches_only_def e)
  show ?case
  proof (cases "pumpRoom now entry w")
    case (Inl x)
    with v show ?thesis by (cases x) simp
  next
    case (Inr w1)
    with v Cons.IH[of w1] show ?thesis by simp
  qed
qed

lemma cache_ok_coveragePumpTick:
  assumes "cache_ok w"
  shows "cache_ok (world_of (coveragePumpTick now w))"
proof (cases "pumpLoop now (outputRooms w) w")
  case (Inl x)
  obtain e w1 where x: "x = (e, w1)" by (cases x)
  with Inl cache_ok_pumpLoop[OF assms, of now "outputRooms w"] have "cache_ok w1" by simp
  with Inl x show ?thesis by (simp add: coveragePumpTick_def cache_ok_logger)
next
  case (Inr w1)
  with cache_ok_pumpLoop[OF assms, of now "outputRooms w"] show ?thesis
    by (simp add: coveragePumpTick_def)
qed

section \<open>The claims\<close>

lemmas model_defs =
  recordMention_def recordStrike_def autoMute_def saveCoverageState_def memoryCallsThrow_def
  loadCoverageState_def logger_def modify_def alloc_def and_then_def
  getOutputRoomConfig_def getCoverageState_def isOutputRoom_def visibleState_def storedState_def
  pumpRoom_def safeguards_def strikeDecay_def gauntlet_def isMuted_def capReached_def
  tooSoon_def coveragePumpTick_def mk_reporterConfig_def no_settings_def or_default_def

lemmas example_defs =
  blank_state_def news_room_def alerts_room_def started_def news_state_def retired_state_def
  row_def restarted_def restarted_failing_def started_failing_def started_debug_throws_def
  rising_story_def

lemma restarted_ok: "cache_ok (restarted st)" "loggerWorks (restarted st)"
proof -
  have "cache_ok (started\<lparr>memories := [row st]\<rparr>)"
    by (simp add: cache_ok_def started_def)
  then show "cache_ok (restarted st)"
    unfolding restarted_def by (rule cache_ok_loadCoverageState)
  show "loggerWorks (restarted st)"
    by (simp add: loggerWorks_def restarted_def started_def loadCoverageState_def
        memoryCallsThrow_def logger_def alloc_def Let_def)
qed

lemma restarted_failing_ok: "cache_ok (restarted_failing st)"
  using restarted_ok(1)[of st] by (simp add: restarted_failing_def cache_ok_def)

subsection \<open>C1\<close>

text \<open>
  Claim C1: \<^verbatim>\<open>recordMention\<close> on an existing state sets \<^verbatim>\<open>lastMentionAt = now\<close>, and
  resets \<^verbatim>\<open>mentionCount24h\<close> to 1 when the previous \<^verbatim>\<open>lastMentionAt\<close> was more than
  24 hours before \<^verbatim>\<open>now\<close>; with the previous mention 25 hours ago and a count of 10 the
  call leaves a count of 1.

  The code tests \<^verbatim>\<open>state.lastMentionAt < oneDayAgo\<close> after it has assigned
  \<^verbatim>\<open>Date.now()\<close> to \<^verbatim>\<open>state.lastMentionAt\<close>, so the test is never true: at the claim's
  own input (previous mention at 1699910000000, 25 hours before 1700000000000, count
  10) the count becomes 11.
\<close>

theorem recordMention_stale_count_not_reset:
  "visibleState (restarted (news_state 1699910000000 10 0 None)) ''r1''
     = Some (news_state 1699910000000 10 0 None)
   \<and> visibleState
       (world_of (recordMention ''r1'' 1700000000000
                    (restarted (news_state 1699910000000 10 0 None)))) ''r1''
     = Some (news_state 1700000000000 11 0 None)"
  by (simp add: model_defs example_defs)

subsection \<open>C2\<close>

text \<open>
  Claim C2: for every state with \<^verbatim>\<open>mutedUntil\<close> set and \<^verbatim>\<open>now < mutedUntil\<close>, the
  evaluation of the destination on a pump tick is ineligible, whatever the mention
  count, the cadence and the candidate items: the mute test comes first and nothing
  overrides it. The loop iteration returns at the first test with the world unchanged:
  no record is logged, nothing is written. (\<^verbatim>\<open>Date.now()\<close> is not negative.)
\<close>

theorem mute_check_first:
  assumes "getCoverageState w rid = Some a"
    and "mutedUntil (heap w a) = Some m" and "now < m" and "0 \<le> now"
  shows "gauntlet (reporterConfig w) now (heap w a) = Muted
         \<and> pumpRoom now (rid, rc) w = Inr w"
  using assms by (simp add: gauntlet_def isMuted_def pumpRoom_def safeguards_def)

theorem mute_check_first_witness:
  "getCoverageState (restarted (news_state 1699989200000 0 2 (Some 1700050000000))) ''r1''
     = Some 0
   \<and> mutedUntil (heap (restarted (news_state 1699989200000 0 2 (Some 1700050000000))) 0)
       = Some 1700050000000
   \<and> (1700000000000 :: int) < 1700050000000 \<and> (0 :: int) \<le> 1700000000000
   \<and> gauntlet (reporterConfig (restarted (news_state 1699989200000 0 2 (Some 1700050000000))))
        1700000000000
        (heap (restarted (news_state 1699989200000 0 2 (Some 1700050000000))) 0) = Muted
   \<and> pumpRoom 1700000000000 (''r1'', news_room)
        (restarted (news_state 1699989200000 0 2 (Some 1700050000000)))
       = Inr (restarted (news_state 1699989200000 0 2 (Some 1700050000000)))"
proof -
  let ?w = "restarted (news_state 1699989200000 0 2 (Some 1700050000000))"
  have h1: "getCoverageState ?w ''r1'' = Some 0"
    by (simp add: model_defs example_defs)
  have h2: "mutedUntil (heap ?w 0) = Some 1700050000000"
    by (simp add: model_defs example_defs)
  have h3: "(1700000000000 :: int) < 1700050000000" by simp
  have h4: "(0 :: int) \<le> 1700000000000" by simp
  from mute_check_first[OF h1 h2 h3 h4, of news_room] h1 h2 show ?thesis by simp
qed

subsection \<open>C8\<close>

text \<open>
  Claim C8: for a destination that is not muted, if \<^verbatim>\<open>lastMentionAt\<close> is within the
  last 24 hours and \<^verbatim>\<open>mentionCount24h\<close> has reached \<^verbatim>\<open>dailyMentionCap\<close> (default 15),
  the evaluation is ineligible (capped), also when the cadence gap has elapsed; if
  \<^verbatim>\<open>lastMentionAt\<close> is 24 hours ago or more, the cap test does not block, whatever the
  count.
\<close>

theorem daily_cap_check:
  assumes "getCoverageState w rid = Some a" and "\<not> isMuted now (heap w a)"
  shows "(now - 86400000 < lastMentionAt (heap w a)
            \<and> dailyMentionCap (reporterConfig w) \<le> mentionCount24h (heap w a)
          \<longrightarrow> gauntlet (reporterConfig w) now (heap w a) = Capped
              \<and> pumpRoom now (rid, rc) w = Inr w)
       \<and> (lastMentionAt (heap w a) \<le> now - 86400000
          \<longrightarrow> \<not> capReached (reporterConfig w) now (heap w a)
              \<and> gauntlet (reporterConfig w) now (heap w a) \<noteq> Capped
              \<and> gauntlet (reporterConfig w) now ((heap w a)\<lparr>mentionCount24h := n\<rparr>)
                  = gauntlet (reporterConfig w) now (heap w a))
       \<and> dailyMentionCap (mk_reporterConfig no_settings) = 15"
  using assms
  by (auto simp add: gauntlet_def isMuted_def capReached_def tooSoon_def pumpRoom_def
      safeguards_def mk_reporterConfig_def no_settings_def or_default_def)

theorem daily_cap_check_witness:
  "getCoverageState
      (restarted ((news_state 1699996400000 15 0 None)\<lparr>cadenceMs := 1800000\<rparr>)) ''r1'' = Some 0
   \<and> \<not> tooSoon 1700000000000 ((news_state 1699996400000 15 0 None)\<lparr>cadenceMs := 1800000\<rparr>)
   \<and> gauntlet (mk_reporterConfig no_settings) 1700000000000
        ((news_state 1699996400000 15 0 None)\<lparr>cadenceMs := 1800000\<rparr>) = Capped
   \<and> pumpRoom 1700000000000 (''r1'', news_room)
        (restarted ((news_state 1699996400000 15 0 None)\<lparr>cadenceMs := 1800000\<rparr>))
       = Inr (restarted ((news_state 1699996400000 15 0 None)\<lparr>cadenceMs := 1800000\<rparr>))
   \<and> getCoverageState (restarted (news_state 1699910000000 100 0 None)) ''r1'' = Some 0
   \<and> gauntlet (mk_reporterConfig no_settings) 1700000000000
        (news_state 1699910000000 100 0 None) = Passed"
proof -
  let ?s1 = "(news_state 1699996400000 15 0 None)\<lparr>cadenceMs := 1800000\<rparr>"
  let ?s2 = "news_state 1699910000000 100 0 None"
  have a1: "getCoverageState (restarted ?s1) ''r1'' = Some 0"
    and b1: "\<not> isMuted 1700000000000 (heap (restarted ?s1) 0)"
    and c1: "heap (restarted ?s1) 0 = ?s1"
    and d1: "reporterConfig (restarted ?s1) = mk_reporterConfig no_settings"
    by (simp_all add: model_defs example_defs)
  have a2: "getCoverageState (restarted ?s2) ''r1'' = Some 0"
    and b2: "\<not> isMuted 1700000000000 (heap (restarted ?s2) 0)"
    and c2: "heap (restarted ?s2) 0 = ?s2"
    and d2: "reporterConfig (restarted ?s2) = mk_reporterConfig no_settings"
    by (simp_all add: model_defs example_defs)
  have e1: "1700000000000 - 86400000 < lastMentionAt ?s1
            \<and> dailyMentionCap (mk_reporterConfig no_settings) \<le> mentionCount24h ?s1"
    and e2: "lastMentionAt ?s2 \<le> 1700000000000 - 86400000"
    and e3: "\<not> tooSoon 1700000000000 ?s1"
    and e4: "gauntlet (mk_reporterConfig no_settings) 1700000000000
               (?s2\<lparr>mentionCount24h := 0\<rparr>) = Passed"
    by (simp_all add: model_defs example_defs)
  from daily_cap_check[OF a1 b1, of news_room 0] daily_cap_check[OF a2 b2, of news_room 0]
    a1 a2 c1 c2 d1 d2 e1 e2 e3 e4
  show ?thesis by simp
qed

subsection \<open>C6\<close>

text \<open>
  Claim C6: two calls to \<^verbatim>\<open>recordStrike\<close> on a fresh registered destination give
  \<^verbatim>\<open>strikes = 2\<close> and \<^verbatim>\<open>mutedUntil = now + 24h\<close> with the default mute duration; every
  further call while the count is at or above 2 assigns \<^verbatim>\<open>mutedUntil\<close> again, from the
  time of that call. The first call creates the state, which the second call finds in
  the cache when the first write went through.
\<close>

theorem two_strikes_mute:
  assumes "getOutputRoomConfig w rid = Some rc" and "getCoverageState w rid = None"
    and "\<not> memoryCallsThrow w"
  shows "map_option strikes
           (visibleState (world_of (recordStrike rid t2 (world_of (recordStrike rid t1 w)))) rid)
           = Some 2
       \<and> map_option mutedUntil
           (visibleState (world_of (recordStrike rid t2 (world_of (recordStrike rid t1 w)))) rid)
           = Some (Some (t2 + strikeMuteHours (reporterConfig w) * 3600000))
       \<and> strikeMuteHours (mk_reporterConfig no_settings) * 3600000 = 86400000
       \<and> (visibleState v rid' = Some st \<and> 2 \<le> strikes st
          \<longrightarrow> visibleState (world_of (recordStrike rid' t3 v)) rid'
               = Some (st\<lparr>strikes := strikes st + 1,
                          mutedUntil :=
                            Some (t3 + strikeMuteHours (reporterConfig v) * 3600000)\<rparr>))"
proof -
  let ?w1 = "world_of (recordStrike rid t1 w)"
  have c: "getCoverageState ?w1 rid = Some (nextRef w)"
    unfolding recordStrike_fresh[OF assms] by (simp add: getCoverageState_def)
  have h: "strikes (heap ?w1 (nextRef w)) = 1" "reporterConfig ?w1 = reporterConfig w"
    unfolding recordStrike_fresh[OF assms] by simp_all
  have two: "map_option strikes (visibleState (world_of (recordStrike rid t2 ?w1)) rid) = Some 2"
    and mute: "map_option mutedUntil (visibleState (world_of (recordStrike rid t2 ?w1)) rid)
                 = Some (Some (t2 + strikeMuteHours (reporterConfig w) * 3600000))"
    unfolding recordStrike_existing[OF c] using h by simp_all
  have dflt: "strikeMuteHours (mk_reporterConfig no_settings) * 3600000 = 86400000"
    by (simp add: mk_reporterConfig_def no_settings_def or_default_def)
  have further: "visibleState (world_of (recordStrike rid' t3 v)) rid'
               = Some (st\<lparr>strikes := strikes st + 1,
                          mutedUntil :=
                            Some (t3 + strikeMuteHours (reporterConfig v) * 3600000)\<rparr>)"
    if "visibleState v rid' = Some st" and "2 \<le> strikes st"
  proof -
    from that(1) obtain b where b: "getCoverageState v rid' = Some b" "heap v b = st"
      by (auto simp add: visibleState_def)
    show ?thesis unfolding recordStrike_existing[OF b(1)] using b(2) that(2) by simp
  qed
  from two mute dflt further show ?thesis by blast
qed

theorem two_strikes_mute_witness:
  "getOutputRoomConfig started ''r1'' = Some news_room
   \<and> getCoverageState started ''r1'' = None
   \<and> \<not> memoryCallsThrow started
   \<and> visibleState
       (world_of (recordStrike ''r1'' 1700000060000
          (world_of (recordStrike ''r1'' 1700000000000 started)))) ''r1''
       = Some (news_state 1700000000000 0 2 (Some 1700086460000))
   \<and> visibleState
       (world_of (recordStrike ''r1'' 1700003600000
          (world_of (recordStrike ''r1'' 1700000060000
             (world_of (recordStrike ''r1'' 1700000000000 started)))))) ''r1''
       = Some (news_state 1700000000000 0 3 (Some 1700090000000))"
proof -
  let ?w2 = "world_of (recordStrike ''r1'' 1700000060000
               (world_of (recordStrike ''r1'' 1700000000000 started)))"
  have h1: "getOutputRoomConfig started ''r1'' = Some news_room"
    and h2: "getCoverageState started ''r1'' = None"
    and h3: "\<not> memoryCallsThrow started"
    and cfg: "strikeMuteHours (reporterConfig started) = 24"
    by (simp_all add: model_defs example_defs)
  have v2: "visibleState ?w2 ''r1'' = Some (news_state 1700000000000 0 2 (Some 1700086460000))"
    and cfg2: "strikeMuteHours (reporterConfig ?w2) = 24"
    by (simp_all add: model_defs example_defs)
  have s2: "2 \<le> strikes (news_state 1700000000000 0 2 (Some 1700086460000))"
    by (simp add: news_state_def)
  from two_strikes_mute[OF h1 h2 h3, where ?t1.0 = 1700000000000 and ?t2.0 = 1700000060000
      and v = ?w2 and rid' = "''r1''"
      and st = "news_state 1700000000000 0 2 (Some 1700086460000)" and ?t3.0 = 1700003600000]
    h1 h2 h3 v2 s2 cfg cfg2
  show ?thesis by (simp add: news_state_def)
qed

subsection \<open>C10\<close>

text \<open>
  Claim C10: when \<^verbatim>\<open>recordStrike\<close> is called for a registered destination with no
  state, the new state has \<^verbatim>\<open>strikes = 1\<close>, \<^verbatim>\<open>mentionCount24h = 0\<close> and
  \<^verbatim>\<open>lastMentionAt\<close> set to the current time rather than 0. So a pump iteration at a
  time \<open>t\<close> within the decay window after the strike leaves the strike in place, and the
  cadence test of the state measures its gap from the time of the strike.
\<close>

theorem strike_created_state:
  assumes "getOutputRoomConfig w rid = Some rc" and "getCoverageState w rid = None"
    and "\<not> memoryCallsThrow w"
  shows "visibleState (world_of (recordStrike rid now w)) rid
           = Some \<lparr> roomId = rid, roomName = name rc, platform = cfg_platform rc,
                    lastMentionAt = now, mentionCount24h = 0,
                    cadenceMs = or_default (cfg_cadenceMs rc)
                                  (defaultCadenceMs (reporterConfig w)),
                    strikes = 1, mutedUntil = None \<rparr>
       \<and> (t - now \<le> strikeDecayHours (reporterConfig w) * 3600000
          \<longrightarrow> map_option strikes
                (visibleState
                   (world_of (pumpRoom t (rid, rc') (world_of (recordStrike rid now w)))) rid)
               = Some 1)
       \<and> (t - now < or_default (cfg_cadenceMs rc) (defaultCadenceMs (reporterConfig w))
          \<longrightarrow> (\<exists>st. visibleState (world_of (recordStrike rid now w)) rid = Some st
                    \<and> tooSoon t st
                    \<and> gauntlet (reporterConfig (world_of (recordStrike rid now w))) t st
                        \<noteq> Passed))"
proof -
  let ?st = "\<lparr> roomId = rid, roomName = name rc, platform = cfg_platform rc,
               lastMentionAt = now, mentionCount24h = 0,
               cadenceMs = or_default (cfg_cadenceMs rc) (defaultCadenceMs (reporterConfig w)),
               strikes = 1, mutedUntil = None \<rparr>"
  let ?w1 = "world_of (recordStrike rid now w)"
  have v: "visibleState ?w1 rid = Some ?st" and cfg: "reporterConfig ?w1 = reporterConfig w"
    unfolding recordStrike_fresh[OF assms]
    by (simp_all add: visibleState_def getCoverageState_def)
  have keep: "map_option strikes (visibleState (world_of (pumpRoom t (rid, rc') ?w1)) rid)
                = Some 1"
    if "t - now \<le> strikeDecayHours (reporterConfig w) * 3600000"
    using pumpRoom_visible[OF v, of t rc'] that cfg by (simp add: decayed_def)
  have soon: "tooSoon t ?st \<and> gauntlet (reporterConfig ?w1) t ?st \<noteq> Passed"
    if "t - now < or_default (cfg_cadenceMs rc) (defaultCadenceMs (reporterConfig w))"
    using that by (simp add: tooSoon_def gauntlet_def)
  from v keep soon show ?thesis by simp
qed

theorem strike_created_state_witness:
  "getOutputRoomConfig started ''r1'' = Some news_room
   \<and> getCoverageState started ''r1'' = None
   \<and> \<not> memoryCallsThrow started
   \<and> visibleState (world_of (recordStrike ''r1'' 1700000000000 started)) ''r1''
       = Some (news_state 1700000000000 0 1 None)
   \<and> (1700003600000 :: int) - 1700000000000
       \<le> strikeDecayHours (reporterConfig started) * 3600000
   \<and> map_option strikes
       (visibleState
          (world_of (pumpRoom 1700003600000 (''r1'', news_room)
             (world_of (recordStrike ''r1'' 1700000000000 started)))) ''r1'') = Some 1
   \<and> tooSoon 1700003600000 (news_state 1700000000000 0 1 None)"
proof -
  have h1: "getOutputRoomConfig started ''r1'' = Some news_room"
    and h2: "getCoverageState started ''r1'' = None"
    and h3: "\<not> memoryCallsThrow started"
    and d: "(1700003600000 :: int) - 1700000000000
              \<le> strikeDecayHours (reporterConfig started) * 3600000"
    and c: "(1700003600000 :: int) - 1700000000000
              < or_default (cfg_cadenceMs news_room) (defaultCadenceMs (reporterConfig started))"
    and n: "\<lparr> roomId = ''r1'', roomName = name news_room, platform = cfg_platform news_room,
               lastMentionAt = 1700000000000, mentionCount24h = 0,
               cadenceMs = or_default (cfg_cadenceMs news_room)
                             (defaultCadenceMs (reporterConfig started)),
               strikes = 1, mutedUntil = None \<rparr> = news_state 1700000000000 0 1 None"
    by (simp_all add: model_defs example_defs)
  from strike_created_state[OF h1 h2 h3, where now = 1700000000000 and t = 1700003600000
      and rc' = news_room]
    h1 h2 h3 d c n
  show ?thesis by auto
qed

subsection \<open>C9\<close>

text \<open>
  Claim C9: for a destination id with no registered policy, \<^verbatim>\<open>recordMention\<close> and
  \<^verbatim>\<open>recordStrike\<close> are no-ops: they create no state, modify no stored state and raise
  no error.

  \<^verbatim>\<open>recordMention\<close> looks the room up first and returns. \<^verbatim>\<open>recordStrike\<close> looks at the
  cache first and consults the registry only when the cache has no state, and the cache
  is filled at start from every row of the memory table, whether or not its room is
  still configured. For the room \<^verbatim>\<open>r9\<close>, cached from an earlier run and not an output
  room, a strike is counted, the room is muted and the row is rewritten.
\<close>

theorem recordStrike_changes_unregistered_room:
  "getOutputRoomConfig (restarted retired_state) ''r9'' = None
   \<and> visibleState (restarted retired_state) ''r9'' = Some retired_state
   \<and> recordMention ''r9'' 1700000000000 (restarted retired_state)
       = Inr (restarted retired_state)
   \<and> visibleState (world_of (recordStrike ''r9'' 1700000000000 (restarted retired_state))) ''r9''
       = Some (retired_state\<lparr>strikes := 2, mutedUntil := Some 1700086400000\<rparr>)
   \<and> storedState
        (memories (world_of (recordStrike ''r9'' 1700000000000 (restarted retired_state)))) ''r9''
       = Some (retired_state\<lparr>strikes := 2, mutedUntil := Some 1700086400000\<rparr>)"
  by (simp add: model_defs example_defs)

subsection \<open>C7\<close>

text \<open>
  Claim C7: on each pump tick, for every registered destination with \<^verbatim>\<open>strikes > 0\<close>,
  if \<^verbatim>\<open>now - lastMentionAt\<close> exceeds the decay window (default 48 hours), \<^verbatim>\<open>strikes\<close>
  is decremented by 1 and the state is persisted.

  The decay is step 4 of the loop body, after the three \<^verbatim>\<open>continue\<close> tests: a
  destination that is muted, capped or too soon is skipped before it. A muted
  destination with two strikes and its last mention 49 hours ago keeps both strikes
  through a tick.
\<close>

theorem muted_destination_keeps_strikes:
  "isOutputRoom (restarted (news_state 1699823600000 0 2 (Some 1700003600000))) ''r1''
   \<and> visibleState (restarted (news_state 1699823600000 0 2 (Some 1700003600000))) ''r1''
       = Some (news_state 1699823600000 0 2 (Some 1700003600000))
   \<and> strikeDecayHours
         (reporterConfig (restarted (news_state 1699823600000 0 2 (Some 1700003600000))))
         * 3600000
       < 1700000000000 - 1699823600000
   \<and> visibleState
       (world_of (coveragePumpTick 1700000000000
          (restarted (news_state 1699823600000 0 2 (Some 1700003600000))))) ''r1''
       = Some (news_state 1699823600000 0 2 (Some 1700003600000))"
  by (simp add: model_defs example_defs)

text \<open>
  Claim C7 as amended: on each pump tick, for every registered destination that passes
  the mute, cap and cadence tests and has \<^verbatim>\<open>strikes > 0\<close>, if \<^verbatim>\<open>now - lastMentionAt\<close>
  exceeds the decay window (default 48 hours), \<^verbatim>\<open>strikes\<close> is decremented by 1 and the
  state is persisted: after the tick the cached state has one strike less, and when the
  memory calls of the iteration succeed the row of the room holds the new state. In
  particular \<^verbatim>\<open>strikes = 1\<close> with the last mention 49 hours ago is \<^verbatim>\<open>strikes = 0\<close> after
  one tick. (The tick is taken with a logger that does not throw.)
\<close>

theorem strike_decay_on_tick:
  assumes "loggerWorks w" and "cache_ok w" and "distinct (map fst (outputRooms w))"
    and "isOutputRoom w rid" and "visibleState w rid = Some st"
    and "gauntlet (reporterConfig w) now st = Passed"
    and "0 < strikes st"
    and "strikeDecayHours (reporterConfig w) * 3600000 < now - lastMentionAt st"
  shows "visibleState (world_of (coveragePumpTick now w)) rid
           = Some (st\<lparr>strikes := strikes st - 1\<rparr>)
       \<and> (\<not> memoryCallsThrow w \<and> (\<forall>m \<in> set (memories w). mem_has_id m)
          \<longrightarrow> storedState (memories (world_of (pumpRoom now (rid, rc) w))) rid
               = Some (st\<lparr>strikes := strikes st - 1\<rparr>))
       \<and> strikeDecayHours (mk_reporterConfig no_settings) * 3600000 = 172800000"
proof -
  from assms(5) obtain a where a: "getCoverageState w rid = Some a" "heap w a = st"
    by (auto simp add: visibleState_def)
  with assms(2) have rid: "roomId st = rid"
    by (auto simp add: cache_ok_def getCoverageState_def)
  have tick: "visibleState (world_of (coveragePumpTick now w)) rid
           = Some (st\<lparr>strikes := strikes st - 1\<rparr>)"
    using tick_this_room[OF assms(1-5), of now] assms(6-8) by (simp add: decayed_def max_def)
  have stored: "storedState (memories (world_of (pumpRoom now (rid, rc) w))) rid
               = Some (st\<lparr>strikes := strikes st - 1\<rparr>)"
    if "\<not> memoryCallsThrow w" and "\<forall>m \<in> set (memories w). mem_has_id m"
  proof -
    have "memories (world_of (pumpRoom now (rid, rc) w))
            = upsert (st\<lparr>strikes := strikes st - 1\<rparr>) (memories w)"
      using pumpRoom_decay(2)[OF a(1), of now rc] assms(6-8) a(2) that(1) by simp
    then show ?thesis
      using upsert_stored[OF that(2), of "st\<lparr>strikes := strikes st - 1\<rparr>"] rid by simp
  qed
  have dflt: "strikeDecayHours (mk_reporterConfig no_settings) * 3600000 = 172800000"
    by (simp add: mk_reporterConfig_def no_settings_def or_default_def)
  from tick stored dflt show ?thesis by blast
qed

theorem strike_decay_on_tick_witness:
  "loggerWorks (restarted (news_state 1699823600000 0 1 None))
   \<and> cache_ok (restarted (news_state 1699823600000 0 1 None))
   \<and> distinct (map fst (outputRooms (restarted (news_state 1699823600000 0 1 None))))
   \<and> isOutputRoom (restarted (news_state 1699823600000 0 1 None)) ''r1''
   \<and> visibleState (restarted (news_state 1699823600000 0 1 None)) ''r1''
       = Some (news_state 1699823600000 0 1 None)
   \<and> gauntlet (reporterConfig (restarted (news_state 1699823600000 0 1 None))) 1700000000000
        (news_state 1699823600000 0 1 None) = Passed
   \<and> \<not> memoryCallsThrow (restarted (news_state 1699823600000 0 1 None))
   \<and> visibleState
       (world_of (coveragePumpTick 1700000000000
          (restarted (news_state 1699823600000 0 1 None)))) ''r1''
       = Some (news_state 1699823600000 0 0 None)
   \<and> storedState
       (memories (world_of (pumpRoom 1700000000000 (''r1'', news_room)
          (restarted (news_state 1699823600000 0 1 None))))) ''r1''
       = Some (news_state 1699823600000 0 0 None)"
proof -
  let ?st = "news_state 1699823600000 0 1 None"
  let ?w = "restarted ?st"
  have h3: "distinct (map fst (outputRooms ?w))"
    and h4: "isOutputRoom ?w ''r1''"
    and h5: "visibleState ?w ''r1'' = Some ?st"
    and h6: "gauntlet (reporterConfig ?w) 1700000000000 ?st = Passed"
    and h7: "0 < strikes ?st"
    and h8: "strikeDecayHours (reporterConfig ?w) * 3600000 < 1700000000000 - lastMentionAt ?st"
    and m1: "\<not> memoryCallsThrow ?w"
    and m2: "\<forall>m \<in> set (memories ?w). mem_has_id m"
    and e: "?st\<lparr>strikes := strikes ?st - 1\<rparr> = news_state 1699823600000 0 0 None"
    by (simp_all add: model_defs example_defs)
  from strike_decay_on_tick[OF restarted_ok(2) restarted_ok(1) h3 h4 h5 h6 h7 h8,
      where rc = news_room]
    restarted_ok[of ?st] h3 h4 h5 h6 m1 m2 e
  show ?thesis by simp
qed

subsection \<open>C5\<close>

text \<open>
  Claim C5: for every mutation (\<^verbatim>\<open>recordMention\<close>, \<^verbatim>\<open>recordStrike\<close>, pump-driven
  decay), if the persistence write fails, the state visible through
  \<^verbatim>\<open>getCoverageState\<close> is unchanged: the cache is updated only after a successful
  persist.

  The cache holds the state objects themselves, and the three methods assign to the
  fields of the object they got from the cache before they call
  \<^verbatim>\<open>saveCoverageState\<close>. With the write failing, a mention on an existing state is
  visible at once, while the row of the memory table keeps the old state.
\<close>

theorem failed_write_shows_in_cache:
  "memoryCallsThrow (restarted_failing (news_state 1699996400000 3 0 None))
   \<and> visibleState (restarted_failing (news_state 1699996400000 3 0 None)) ''r1''
       = Some (news_state 1699996400000 3 0 None)
   \<and> visibleState
       (world_of (recordMention ''r1'' 1700000000000
          (restarted_failing (news_state 1699996400000 3 0 None)))) ''r1''
       = Some (news_state 1700000000000 4 0 None)
   \<and> storedState
       (memories (world_of (recordMention ''r1'' 1700000000000
          (restarted_failing (news_state 1699996400000 3 0 None))))) ''r1''
       = Some (news_state 1699996400000 3 0 None)
   \<and> logged (world_of (recordMention ''r1'' 1700000000000
          (restarted_failing (news_state 1699996400000 3 0 None))))
       = [LoadedCoverageStates 1, ErrorSavingCoverageState]"
  by (simp add: model_defs example_defs)

text \<open>
  Claim C5 as amended: if the persistence write fails, a mutation that would create
  the state of a destination (\<^verbatim>\<open>recordMention\<close>, \<^verbatim>\<open>recordStrike\<close> or the lazy
  initialisation of the pump on a destination with no cached state) leaves everything
  visible through \<^verbatim>\<open>getCoverageState\<close> unchanged: a new state enters the cache only
  after a successful persist. A mutation of an existing state (\<^verbatim>\<open>recordMention\<close>,
  \<^verbatim>\<open>recordStrike\<close>, pump-driven decay) is made on the cached object before the write
  and is visible through \<^verbatim>\<open>getCoverageState\<close> also when the write fails.
\<close>

theorem failed_write_visibility:
  assumes "memoryCallsThrow w" and "cache_ok w"
  shows "(getCoverageState w rid = None
          \<longrightarrow> visibleState (world_of (recordMention rid now w)) = visibleState w
              \<and> visibleState (world_of (recordStrike rid now w)) = visibleState w
              \<and> visibleState (world_of (pumpRoom now (rid, rc) w)) = visibleState w)
       \<and> (getCoverageState w rid = Some a
          \<longrightarrow> (getOutputRoomConfig w rid \<noteq> None
               \<longrightarrow> visibleState (world_of (recordMention rid now w)) rid
                    = Some ((heap w a)\<lparr>lastMentionAt := now,
                              mentionCount24h := mentionCount24h (heap w a) + 1\<rparr>))
              \<and> map_option strikes (visibleState (world_of (recordStrike rid now w)) rid)
                  = Some (strikes (heap w a) + 1)
              \<and> (gauntlet (reporterConfig w) now (heap w a) = Passed
                   \<and> 0 < strikes (heap w a)
                   \<and> strikeDecayHours (reporterConfig w) * 3600000
                       < now - lastMentionAt (heap w a)
                 \<longrightarrow> map_option strikes
                       (visibleState (world_of (pumpRoom now (rid, rc) w)) rid)
                      = Some (strikes (heap w a) - 1)))"
proof -
  have new: "visibleState (world_of (recordMention rid now w)) = visibleState w
              \<and> visibleState (world_of (recordStrike rid now w)) = visibleState w
              \<and> visibleState (world_of (pumpRoom now (rid, rc) w)) = visibleState w"
    if "getCoverageState w rid = None"
    using failed_creation_invisible[OF assms(2,1) that] by simp
  have mention: "visibleState (world_of (recordMention rid now w)) rid
                    = Some ((heap w a)\<lparr>lastMentionAt := now,
                              mentionCount24h := mentionCount24h (heap w a) + 1\<rparr>)"
    if "getCoverageState w rid = Some a" and "getOutputRoomConfig w rid \<noteq> None"
    using that recordMention_existing[of w rid _ a now] by auto
  have strike: "map_option strikes (visibleState (world_of (recordStrike rid now w)) rid)
                  = Some (strikes (heap w a) + 1)"
    if "getCoverageState w rid = Some a"
    unfolding recordStrike_existing[OF that] by simp
  have decay: "map_option strikes (visibleState (world_of (pumpRoom now (rid, rc) w)) rid)
                      = Some (strikes (heap w a) - 1)"
    if "getCoverageState w rid = Some a"
      and "gauntlet (reporterConfig w) now (heap w a) = Passed"
      and "0 < strikes (heap w a)"
      and "strikeDecayHours (reporterConfig w) * 3600000 < now - lastMentionAt (heap w a)"
    using pumpRoom_decay(1)[OF that(1,2,3), of rc] that(4) by simp
  from new mention strike decay show ?thesis by blast
qed

theorem failed_write_visibility_witness:
  "memoryCallsThrow started_failing \<and> cache_ok started_failing
   \<and> getCoverageState started_failing ''r1'' = None
   \<and> visibleState (world_of (recordMention ''r1'' 1700000000000 started_failing)) ''r1'' = None
   \<and> visibleState (world_of (recordStrike ''r1'' 1700000000000 started_failing)) ''r1'' = None
   \<and> visibleState (world_of (pumpRoom 1700000000000 (''r1'', news_room) started_failing)) ''r1''
       = None
   \<and> memoryCallsThrow (restarted_failing (news_state 1699823600000 3 1 None))
   \<and> cache_ok (restarted_failing (news_state 1699823600000 3 1 None))
   \<and> getCoverageState (restarted_failing (news_state 1699823600000 3 1 None)) ''r1'' = Some 0
   \<and> visibleState
       (world_of (recordMention ''r1'' 1700000000000
          (restarted_failing (news_state 1699823600000 3 1 None)))) ''r1''
       = Some (news_state 1700000000000 4 1 None)
   \<and> map_option strikes
       (visibleState
          (world_of (recordStrike ''r1'' 1700000000000
             (restarted_failing (news_state 1699823600000 3 1 None)))) ''r1'') = Some 2
   \<and> map_option strikes
       (visibleState
          (world_of (pumpRoom 1700000000000 (''r1'', news_room)
             (restarted_failing (news_state 1699823600000 3 1 None)))) ''r1'') = Some 0"
proof -
  let ?st = "news_state 1699823600000 3 1 None"
  let ?w = "restarted_failing ?st"
  have n1: "memoryCallsThrow started_failing"
    and n2: "cache_ok started_failing"
    and n3: "getCoverageState started_failing ''r1'' = None"
    and n4: "visibleState started_failing ''r1'' = None"
    by (simp_all add: model_defs example_defs cache_ok_def)
  have e1: "memoryCallsThrow ?w"
    and e3: "getCoverageState ?w ''r1'' = Some 0"
    and e4: "getOutputRoomConfig ?w ''r1'' \<noteq> None"
    and e5: "heap ?w 0 = ?st"
    and e6: "gauntlet (reporterConfig ?w) 1700000000000 ?st = Passed"
    and e7: "strikeDecayHours (reporterConfig ?w) * 3600000 < 1700000000000 - lastMentionAt ?st"
    by (simp_all add: model_defs example_defs)
  from failed_write_visibility[OF n1 n2, where rid = "''r1''" and now = 1700000000000
      and rc = news_room and a = 0]
    failed_write_visibility[OF e1 restarted_failing_ok, where rid = "''r1''"
      and now = 1700000000000 and rc = news_room and a = 0]
    n1 n2 n3 n4 e1 e3 e4 e5 e6 e7 restarted_failing_ok[of ?st]
  show ?thesis by (simp add: news_state_def)
qed

subsection \<open>C4\<close>

text \<open>
  Claim C4: during one pump tick, an exception raised while processing one destination
  is caught and logged, and every remaining destination of the tick is still
  processed.

  The only \<^verbatim>\<open>try\<close> of \<^verbatim>\<open>coveragePumpTick\<close> is around the whole loop. When the debug
  record of the first room throws, the handler logs \<^verbatim>\<open>'Error in coverage pump'\<close> and
  the tick ends: the second room, whose state the loop would have created, has none.
\<close>

theorem tick_stops_after_uncaught_exception:
  "isOutputRoom started_debug_throws ''r2''
   \<and> visibleState (world_of (coveragePumpTick 1700000000000 started_debug_throws)) ''r2''
       = None
   \<and> visibleState
        (isolatedLoop 1700000000000 (outputRooms started_debug_throws) started_debug_throws)
        ''r2''
       \<noteq> None
   \<and> logged (world_of (coveragePumpTick 1700000000000 started_debug_throws))
       = [ErrorInCoveragePump]"
  by (simp add: model_defs example_defs)

text \<open>
  Claim C4 as amended: during one pump tick, a persistence failure while saving the
  state of one destination is caught and logged inside \<^verbatim>\<open>saveCoverageState\<close>, and every
  remaining destination of the tick is still processed: with a logger that does not
  throw, the tick returns normally and is the run of every registered destination's
  iteration, in order, whatever the memory calls do.
\<close>

theorem tick_survives_failed_writes:
  assumes "loggerWorks w"
  shows "coveragePumpTick now w = Inr (isolatedLoop now (outputRooms w) w)
       \<and> (memoryCallsThrow w
          \<longrightarrow> saveCoverageState a w
               = Inr (w\<lparr>persistFaults := tl (persistFaults w),
                        logged := logged w @ [ErrorSavingCoverageState]\<rparr>))"
  using pumpLoop_isolated[OF assms, of now "outputRooms w"] failed_save_logged[OF _ assms, of a]
  by (simp add: coveragePumpTick_def)

theorem tick_survives_failed_writes_witness:
  "loggerWorks started_failing \<and> memoryCallsThrow started_failing
   \<and> coveragePumpTick 1700000000000 started_failing
       = Inr (isolatedLoop 1700000000000 (outputRooms started_failing) started_failing)
   \<and> logged (world_of (coveragePumpTick 1700000000000 started_failing))
       = [ErrorSavingCoverageState, CoverageGapDetected ''#news'' 1700000000000,
          CoverageGapDetected ''#alerts'' 1700000000000]
   \<and> visibleState (world_of (coveragePumpTick 1700000000000 started_failing)) ''r1'' = None
   \<and> map_option roomName
        (visibleState (world_of (coveragePumpTick 1700000000000 started_failing)) ''r2'')
       = Some ''#alerts''"
proof -
  have h: "loggerWorks started_failing"
    and m: "memoryCallsThrow started_failing"
    and l: "logged (isolatedLoop 1700000000000 (outputRooms started_failing) started_failing)
       = [ErrorSavingCoverageState, CoverageGapDetected ''#news'' 1700000000000,
          CoverageGapDetected ''#alerts'' 1700000000000]"
    and v1: "visibleState
        (isolatedLoop 1700000000000 (outputRooms started_failing) started_failing) ''r1''
       = None"
    and v2: "map_option roomName (visibleState
        (isolatedLoop 1700000000000 (outputRooms started_failing) started_failing) ''r2'')
       = Some ''#alerts''"
    by (simp_all add: model_defs example_defs loggerWorks_def)
  from tick_survives_failed_writes[OF h, where now = 1700000000000 and a = 0] h m l v1 v2
  show ?thesis by simp
qed

subsection \<open>C3\<close>





end
